theory Spec2Isabelle
  imports Complex_Main
begin

section \<open>Floating-point values under exact arithmetic\<close>

text \<open>
  The program computes on IEEE doubles held in pandas frames. A cell is modelled as a
  real number computed exactly (no rounding, no overflow), or one of the three special
  values that decide what pandas does with a row: the two infinities (kept by
  \<^verbatim>\<open>dropna\<close>) and NaN (the missing value, dropped by \<^verbatim>\<open>dropna\<close>).
  Signed zeros are not distinguished: a zero divisor counts as \<^verbatim>\<open>+0.0\<close>.
\<close>

datatype flt = Fin real | PInf | NInf | NaN

fun fl_neg :: "flt \<Rightarrow> flt" where
  "fl_neg (Fin a) = Fin (- a)"
| "fl_neg PInf = NInf"
| "fl_neg NInf = PInf"
| "fl_neg NaN = NaN"

fun fl_add :: "flt \<Rightarrow> flt \<Rightarrow> flt" where
  "fl_add (Fin a) (Fin b) = Fin (a + b)"
| "fl_add NaN y = NaN"
| "fl_add x NaN = NaN"
| "fl_add PInf NInf = NaN"
| "fl_add NInf PInf = NaN"
| "fl_add PInf y = PInf"
| "fl_add NInf y = NInf"
| "fl_add x PInf = PInf"
| "fl_add x NInf = NInf"

definition fl_sub :: "flt \<Rightarrow> flt \<Rightarrow> flt" where
  "fl_sub x y = fl_add x (fl_neg y)"

text \<open>The sign of an infinity times a finite factor; zero times infinity is NaN.\<close>

definition inf_signed :: "bool \<Rightarrow> real \<Rightarrow> flt" where
  "inf_signed pos a =
     (if a = 0 then NaN else if (0 < a) = pos then PInf else NInf)"

fun fl_mul :: "flt \<Rightarrow> flt \<Rightarrow> flt" where
  "fl_mul (Fin a) (Fin b) = Fin (a * b)"
| "fl_mul NaN y = NaN"
| "fl_mul x NaN = NaN"
| "fl_mul (Fin a) PInf = inf_signed True a"
| "fl_mul (Fin a) NInf = inf_signed False a"
| "fl_mul PInf (Fin b) = inf_signed True b"
| "fl_mul NInf (Fin b) = inf_signed False b"
| "fl_mul PInf PInf = PInf"
| "fl_mul NInf NInf = PInf"
| "fl_mul PInf NInf = NInf"
| "fl_mul NInf PInf = NInf"

fun fl_div :: "flt \<Rightarrow> flt \<Rightarrow> flt" where
  "fl_div (Fin a) (Fin b) = (if b = 0 then inf_signed True a else Fin (a / b))"
| "fl_div NaN y = NaN"
| "fl_div x NaN = NaN"
| "fl_div (Fin a) PInf = Fin 0"
| "fl_div (Fin a) NInf = Fin 0"
| "fl_div PInf (Fin b) = (if 0 \<le> b then PInf else NInf)"
| "fl_div NInf (Fin b) = (if 0 \<le> b then NInf else PInf)"
| "fl_div PInf PInf = NaN"
| "fl_div PInf NInf = NaN"
| "fl_div NInf PInf = NaN"
| "fl_div NInf NInf = NaN"

fun fl_sqrt :: "flt \<Rightarrow> flt" where
  "fl_sqrt (Fin a) = (if 0 \<le> a then Fin (sqrt a) else NaN)"
| "fl_sqrt PInf = PInf"
| "fl_sqrt NInf = NaN"
| "fl_sqrt NaN = NaN"

definition isna :: "flt \<Rightarrow> bool" where
  "isna x = (x = NaN)"

fun is_fin :: "flt \<Rightarrow> bool" where
  "is_fin (Fin a) = True"
| "is_fin x = False"

text \<open>\<^verbatim>\<open>x < 0\<close> and \<open>0 < x\<close> on doubles: every comparison with NaN is false.\<close>

fun fl_neg_sign :: "flt \<Rightarrow> bool" where
  "fl_neg_sign (Fin a) = (a < 0)"
| "fl_neg_sign NInf = True"
| "fl_neg_sign x = False"

fun fl_pos :: "flt \<Rightarrow> bool" where
  "fl_pos (Fin a) = (0 < a)"
| "fl_pos PInf = True"
| "fl_pos x = False"

definition fl_sum :: "flt list \<Rightarrow> flt" where
  "fl_sum xs = foldl fl_add (Fin 0) xs"

section \<open>Input normalizer\<close>

text \<open>
  \<^verbatim>\<open>ticker_list = [x.strip().upper() for x in tickers.split(',')]\<close>.
  Strings are ASCII strings. \<^verbatim>\<open>str.split(',')\<close> cuts at every comma and keeps
  empty pieces; \<^verbatim>\<open>str.strip()\<close> removes the characters for which
  \<^verbatim>\<open>str.isspace\<close> holds from both ends; \<^verbatim>\<open>str.upper()\<close> maps a..z to A..Z.
\<close>

fun split_on :: "char \<Rightarrow> string \<Rightarrow> string list" where
  "split_on sep [] = [[]]"
| "split_on sep (c # cs) =
     (let r = split_on sep cs
      in if c = sep then [] # r else (c # hd r) # tl r)"

definition is_space :: "char \<Rightarrow> bool" where
  "is_space c = (let n = (of_char c :: nat) in (9 \<le> n \<and> n \<le> 13) \<or> (28 \<le> n \<and> n \<le> 32))"

definition strip :: "string \<Rightarrow> string" where
  "strip s = rev (dropWhile is_space (rev (dropWhile is_space s)))"

definition upper_char :: "char \<Rightarrow> char" where
  "upper_char c =
     (let n = (of_char c :: nat) in if 97 \<le> n \<and> n \<le> 122 then char_of (n - 32) else c)"

definition upper :: "string \<Rightarrow> string" where
  "upper s = map upper_char s"

definition ticker_list :: "string \<Rightarrow> string list" where
  "ticker_list tickers = map (\<lambda>x. upper (strip x)) (split_on CHR '','' tickers)"

section \<open>Price tables\<close>

text \<open>
  A pandas DataFrame: the column labels (tickers) and the rows in index order, each row
  the index label (a date) with one cell per column.
\<close>

type_synonym date = nat

record frame =
  columns :: "string list"
  rows :: "(date \<times> flt list) list"

definition wf_frame :: "frame \<Rightarrow> bool" where
  "wf_frame t = list_all (\<lambda>r. length (snd r) = length (columns t)) (rows t)"

text \<open>\<^verbatim>\<open>DataFrame.empty\<close>: some axis has length 0.\<close>

definition empty :: "frame \<Rightarrow> bool" where
  "empty t = (rows t = [] \<or> columns t = [])"

definition col :: "frame \<Rightarrow> nat \<Rightarrow> flt list" where
  "col t j = map (\<lambda>r. snd r ! j) (rows t)"

text \<open>
  \<^verbatim>\<open>DataFrame.pct_change()\<close> is \<^verbatim>\<open>data / data.shift(1) - 1\<close>, where
  \<^verbatim>\<open>data\<close> is the frame itself, or the frame forward-filled along each column when
  the installed pandas still pads by default (\<^verbatim>\<open>fill_method='pad'\<close>, the default
  before pandas 3). The flag \<open>pad\<close> selects between the two.
\<close>

fun ffill_from :: "flt list \<Rightarrow> (date \<times> flt list) list \<Rightarrow> (date \<times> flt list) list" where
  "ffill_from prev [] = []"
| "ffill_from prev ((d, r) # rs) =
     (let r' = map2 (\<lambda>p c. if isna c then p else c) prev r
      in (d, r') # ffill_from r' rs)"

definition ffill :: "(date \<times> flt list) list \<Rightarrow> (date \<times> flt list) list" where
  "ffill rs = (case rs of [] \<Rightarrow> [] | (d, r) # rest \<Rightarrow> (d, r) # ffill_from r rest)"

text \<open>
  \<^verbatim>\<open>shift(1)\<close>: the index stays, every row of values moves down by one date, the
  first row becomes all NaN and the last row of values falls off (\<open>zip\<close> stops at
  the end of the index).
\<close>

definition shift1 :: "nat \<Rightarrow> (date \<times> flt list) list \<Rightarrow> (date \<times> flt list) list" where
  "shift1 n rs = zip (map fst rs) (replicate n NaN # map snd rs)"

definition pct_row :: "flt list \<Rightarrow> flt list \<Rightarrow> flt list" where
  "pct_row cur prev = map2 (\<lambda>c p. fl_sub (fl_div c p) (Fin 1)) cur prev"

definition pct_change :: "bool \<Rightarrow> frame \<Rightarrow> frame" where
  "pct_change pad t =
     (let data = (if pad then ffill (rows t) else rows t);
          shifted = shift1 (length (columns t)) data
      in t\<lparr>rows := map2 (\<lambda>cur prev. (fst cur, pct_row (snd cur) (snd prev))) data shifted\<rparr>)"

text \<open>\<^verbatim>\<open>DataFrame.dropna()\<close>: keep the rows without any NaN cell.\<close>

definition dropna :: "frame \<Rightarrow> frame" where
  "dropna t = t\<lparr>rows := filter (\<lambda>r. \<not> list_ex isna (snd r)) (rows t)\<rparr>"

definition daily_returns :: "bool \<Rightarrow> frame \<Rightarrow> frame" where
  "daily_returns pad stock_data = dropna (pct_change pad stock_data)"

section \<open>Risk, correlation and cumulative return\<close>

text \<open>
  \<^verbatim>\<open>Series.std()\<close> (\<^verbatim>\<open>ddof=1\<close>, \<^verbatim>\<open>skipna=True\<close>): NaN cells are left out, fewer
  than two remaining observations give NaN, otherwise the square root of the summed
  squared deviations from the mean divided by \<open>count - 1\<close>.
\<close>

definition series_std :: "flt list \<Rightarrow> flt" where
  "series_std xs =
     (let vs = filter (\<lambda>v. \<not> isna v) xs; count = length vs
      in if count \<le> 1 then NaN
         else let avg = fl_div (fl_sum vs) (Fin (real count));
                  sqr = map (\<lambda>v. let e = fl_sub avg v in fl_mul e e) vs
              in fl_sqrt (fl_div (fl_sum sqr) (Fin (real (count - 1)))))"

definition std :: "frame \<Rightarrow> flt list" where
  "std t = map (\<lambda>j. series_std (col t j)) [0..<length (columns t)]"

text \<open>\<^verbatim>\<open>annualized_risk = daily_std * np.sqrt(252) * 100\<close>, per ticker.\<close>

definition annualized_risk :: "flt list \<Rightarrow> flt list" where
  "annualized_risk daily_std = map (\<lambda>s. fl_mul (fl_mul s (Fin (sqrt 252))) (Fin 100)) daily_std"

text \<open>
  \<^verbatim>\<open>DataFrame.corr()\<close>: the Pearson coefficient of each pair of columns over the rows
  where both cells are finite (the mask is \<^verbatim>\<open>isfinite\<close>: NaN and the infinities are
  left out); NaN when there is no such row or when the divisor is zero.
\<close>

definition corr_pair :: "flt list \<Rightarrow> flt list \<Rightarrow> flt" where
  "corr_pair xs ys =
     (let ps = filter (\<lambda>p. is_fin (fst p) \<and> is_fin (snd p)) (zip xs ys);
          vx = map fst ps; vy = map snd ps;
          nobs = length ps
      in if nobs < 1 then NaN
         else let meanx = fl_div (fl_sum vx) (Fin (real nobs));
                  meany = fl_div (fl_sum vy) (Fin (real nobs));
                  dx = map (\<lambda>v. fl_sub v meanx) vx;
                  dy = map (\<lambda>v. fl_sub v meany) vy;
                  covxy = fl_sum (map2 fl_mul dx dy);
                  ssqdm_x = fl_sum (map2 fl_mul dx dx);
                  ssqdm_y = fl_sum (map2 fl_mul dy dy);
                  divisor = fl_sqrt (fl_mul ssqdm_x ssqdm_y)
              in if divisor = Fin 0 then NaN else fl_div covxy divisor)"

definition corr :: "frame \<Rightarrow> flt list list" where
  "corr t =
     map (\<lambda>i. map (\<lambda>j. corr_pair (col t i) (col t j)) [0..<length (columns t)])
       [0..<length (columns t)]"

text \<open>
  \<^verbatim>\<open>(1 + daily_returns).cumprod()\<close>: the running product down each column. A NaN cell
  is skipped: it stays NaN in the result and leaves the running product as it was.
\<close>

definition add_scalar :: "real \<Rightarrow> frame \<Rightarrow> frame" where
  "add_scalar a t = t\<lparr>rows := map (\<lambda>r. (fst r, map (fl_add (Fin a)) (snd r))) (rows t)\<rparr>"

fun cumprod_from :: "flt list \<Rightarrow> (date \<times> flt list) list \<Rightarrow> (date \<times> flt list) list" where
  "cumprod_from acc [] = []"
| "cumprod_from acc ((d, r) # rs) =
     (let acc' = map2 (\<lambda>a c. if isna c then a else fl_mul a c) acc r
      in (d, map2 (\<lambda>a c. if isna c then NaN else a) acc' r) # cumprod_from acc' rs)"

definition cumprod :: "frame \<Rightarrow> frame" where
  "cumprod t = t\<lparr>rows := cumprod_from (replicate (length (columns t)) (Fin 1)) (rows t)\<rparr>"

definition cumulative_returns :: "frame \<Rightarrow> frame" where
  "cumulative_returns daily = cumprod (add_scalar 1 daily)"

section \<open>Monte Carlo simulation\<close>

datatype py_error = ValueError | IndexError | KeyError

text \<open>
  The random generator is a stream \<open>zs\<close> of standard normal draws and the position of
  the next unread draw. \<^verbatim>\<open>np.random.normal(loc, scale, size)\<close> raises ValueError when
  some scale is negative, and otherwise reads \<open>sz\<close> (its \<^verbatim>\<open>size\<close>) draws and returns
  \<open>loc + scale[i] * z\<close> for each of them.
\<close>

definition normal ::
  "(nat \<Rightarrow> real) \<Rightarrow> real \<Rightarrow> flt list \<Rightarrow> nat \<Rightarrow> nat \<Rightarrow> py_error + (flt list \<times> nat)" where
  "normal zs loc scale sz g =
     (if list_ex fl_neg_sign scale then Inl ValueError
      else Inr (map (\<lambda>i. fl_add (Fin loc) (fl_mul (scale ! i) (Fin (zs (g + i))))) [0..<sz],
                g + sz))"

text \<open>\<^verbatim>\<open>price * (1 + draws)\<close>, elementwise over the tickers.\<close>

definition perturb :: "flt list \<Rightarrow> flt list \<Rightarrow> flt list" where
  "perturb price d = map2 fl_mul price (map (fl_add (Fin 1)) d)"

definition num_simulations :: nat where
  "num_simulations = 50"

definition num_days :: nat where
  "num_days = 252"

text \<open>
  The inner loop \<^verbatim>\<open>for y in range(num_days)\<close>, with the iterations left as first
  argument: it stops at \<^verbatim>\<open>count == 251\<close>, and otherwise appends
  \<^verbatim>\<open>price_series[count] * (1 + normal(0, daily_vol, n))\<close>.
\<close>

fun random_walk ::
  "nat \<Rightarrow> (nat \<Rightarrow> real) \<Rightarrow> flt list \<Rightarrow> nat \<Rightarrow> nat \<Rightarrow> flt list list \<Rightarrow> nat
     \<Rightarrow> py_error + (flt list list \<times> nat)" where
  "random_walk 0 zs daily_vol n count price_series g = Inr (price_series, g)"
| "random_walk (Suc k) zs daily_vol n count price_series g =
     (if count = 251 then Inr (price_series, g)
      else if length price_series \<le> count then Inl IndexError
      else case normal zs 0 daily_vol n g of
             Inl e \<Rightarrow> Inl e
           | Inr (d, g') \<Rightarrow>
               random_walk k zs daily_vol n (count + 1)
                 (price_series @ [perturb (price_series ! count) d]) g')"

text \<open>
  \<^verbatim>\<open>[p[0] for p in price_series]\<close>: each \<open>p\<close> is a Series labelled by the
  tickers. With pandas before version 3 (\<open>positional\<close>) the integer key 0 falls back to
  the position: \<^verbatim>\<open>p[0]\<close> is the value of the first column of the price table, and
  raises IndexError on an empty Series. From pandas 3 on the key is looked up among the
  labels, which are ticker strings, and \<^verbatim>\<open>p[0]\<close> raises KeyError.
\<close>

fun firsts :: "bool \<Rightarrow> flt list list \<Rightarrow> py_error + flt list" where
  "firsts positional [] = Inr []"
| "firsts positional (p # ps) =
     (if \<not> positional then Inl KeyError
      else case p of [] \<Rightarrow> Inl IndexError
        | v # _ \<Rightarrow> (case firsts positional ps of Inl e \<Rightarrow> Inl e | Inr vs \<Rightarrow> Inr (v # vs)))"

text \<open>One pass of the outer loop body: the column stored as \<^verbatim>\<open>simulation_df[x]\<close>.\<close>

definition simulate_path ::
  "bool \<Rightarrow> (nat \<Rightarrow> real) \<Rightarrow> flt list \<Rightarrow> frame \<Rightarrow> nat \<Rightarrow> py_error + (flt list \<times> nat)" where
  "simulate_path positional zs last_price daily g =
     (let daily_vol = std daily
      in case normal zs 0 daily_vol (length last_price) g of
           Inl e \<Rightarrow> Inl e
         | Inr (d, g1) \<Rightarrow>
             (let price = perturb last_price d
              in case random_walk num_days zs daily_vol (length last_price) 0 [price] g1 of
                   Inl e \<Rightarrow> Inl e
                 | Inr (price_series, g2) \<Rightarrow>
                     (case firsts positional price_series of
                        Inl e \<Rightarrow> Inl e
                      | Inr column \<Rightarrow> Inr (column, g2))))"

text \<open>
  The outer loop \<^verbatim>\<open>for x in range(num_simulations)\<close>, with the iterations left as
  first argument; \<open>simulation_df\<close> is the list of the columns stored so far.
\<close>

fun simulate ::
  "nat \<Rightarrow> bool \<Rightarrow> (nat \<Rightarrow> real) \<Rightarrow> flt list \<Rightarrow> frame \<Rightarrow> flt list list \<Rightarrow> nat
     \<Rightarrow> py_error + flt list list" where
  "simulate 0 positional zs last_price daily simulation_df g = Inr simulation_df"
| "simulate (Suc k) positional zs last_price daily simulation_df g =
     (case simulate_path positional zs last_price daily g of
        Inl e \<Rightarrow> Inl e
      | Inr (column, g') \<Rightarrow>
          simulate k positional zs last_price daily (simulation_df @ [column]) g')"

section \<open>The analysis pipeline\<close>

text \<open>
  What a run that passed the empty check has computed and handed to its charts, in the
  order of the source. The last field is what the Monte Carlo section (from
  \<^verbatim>\<open>last_price = stock_data.iloc[-1]\<close> on) leaves: the simulation table, or the
  exception that ends the run there, after every earlier table was shown.
\<close>

record analysis =
  preview :: frame
  price_history :: frame
  returns :: frame
  risk_df :: "(string \<times> flt) list"
  correlation_matrix :: "flt list list"
  cumulative :: frame
  simulation :: "py_error + flt list list"

text \<open>
  The two branches of the empty check: the error message alone, or the success message
  followed by the analysis.
\<close>

datatype outcome = NoData string | Loaded analysis

text \<open>\<^verbatim>\<open>stock_data.tail()\<close>: the last five rows.\<close>

definition tail :: "frame \<Rightarrow> frame" where
  "tail t = t\<lparr>rows := drop (length (rows t) - 5) (rows t)\<rparr>"

text \<open>\<^verbatim>\<open>stock_data.iloc[-1]\<close>: the last row, IndexError when there is none.\<close>

definition iloc_last :: "frame \<Rightarrow> py_error + flt list" where
  "iloc_last t = (if rows t = [] then Inl IndexError else Inr (snd (last (rows t))))"

text \<open>
  The body of the \<^verbatim>\<open>Analyze Portfolio\<close> button once \<open>stock_data\<close> is fetched.
  \<open>zs\<close> is the random stream. \<open>pad\<close> tells the installed pandas: before version 3
  (\<open>True\<close>) \<^verbatim>\<open>pct_change\<close> pads and \<^verbatim>\<open>p[0]\<close> reads a position; from version 3 on
  (\<open>False\<close>) \<^verbatim>\<open>pct_change\<close> does not pad and \<^verbatim>\<open>p[0]\<close> is a label lookup. The
  chart calls only display the tables and are not part of the outcome.
\<close>

definition pipeline :: "bool \<Rightarrow> (nat \<Rightarrow> real) \<Rightarrow> frame \<Rightarrow> outcome" where
  "pipeline pad zs stock_data =
     (if empty stock_data then NoData ''No data found. Please check ticker symbols.''
      else
        let daily = daily_returns pad stock_data;
            daily_std = std daily;
            risk = annualized_risk daily_std;
            correlation = corr daily;
            cumul = cumulative_returns daily
        in Loaded \<lparr>preview = tail stock_data, price_history = stock_data,
             returns = daily, risk_df = zip (columns daily) risk,
             correlation_matrix = correlation, cumulative = cumul,
             simulation =
               (case iloc_last stock_data of
                  Inl e \<Rightarrow> Inl e
                | Inr last_price \<Rightarrow> simulate num_simulations pad zs last_price daily [] 0)\<rparr>)"

text \<open>
  The fetch \<^verbatim>\<open>yf.download(...)['Adj Close']\<close> is an external service: \<open>download\<close>
  stands for it.
\<close>

definition get_data ::
  "(string list \<Rightarrow> date \<Rightarrow> date \<Rightarrow> frame) \<Rightarrow> string list \<Rightarrow> date \<Rightarrow> date \<Rightarrow> frame" where
  "get_data download tickers_list start end_date = download tickers_list start end_date"

definition analyze ::
  "(string list \<Rightarrow> date \<Rightarrow> date \<Rightarrow> frame) \<Rightarrow> bool \<Rightarrow> (nat \<Rightarrow> real) \<Rightarrow> string \<Rightarrow> date \<Rightarrow> date
     \<Rightarrow> outcome" where
  "analyze download pad zs tickers start_date end_date =
     pipeline pad zs (get_data download (ticker_list tickers) start_date end_date)"

section \<open>Notions used in the statements\<close>

text \<open>A cell that is a finite number other than zero, as every quoted price is.\<close>

fun nonzero_fin :: "flt \<Rightarrow> bool" where
  "nonzero_fin (Fin a) = (a \<noteq> 0)"
| "nonzero_fin x = False"

definition all_cells :: "(flt \<Rightarrow> bool) \<Rightarrow> frame \<Rightarrow> bool" where
  "all_cells P t = list_all (\<lambda>r. list_all P (snd r)) (rows t)"

text \<open>
  A price table as the provider returns it when the second ticker was first quoted on
  the third date of the range: its earlier cells are missing.
\<close>

definition late_listing :: frame where
  "late_listing =
     \<lparr>columns = [''AAPL'', ''NEWCO''],
      rows = [(0, [Fin 100, NaN]), (1, [Fin 101, NaN]), (2, [Fin 102, Fin 50]),
              (3, [Fin 103, Fin 51])]\<rparr>"

text \<open>The scenario of the specification: one ticker, five closing prices.\<close>

definition aapl5 :: frame where
  "aapl5 =
     \<lparr>columns = [''AAPL''],
      rows = [(0, [Fin 100]), (1, [Fin 101]), (2, [Fin 99]), (3, [Fin 102]), (4, [Fin 103])]\<rparr>"

text \<open>
  The vector of samples of Normal(0, \<open>vol\<close>) that one call of the generator returns
  at position \<open>g\<close> of the stream, and the sample for the first ticker alone.
\<close>

definition draws_at :: "(nat \<Rightarrow> real) \<Rightarrow> flt list \<Rightarrow> nat \<Rightarrow> nat \<Rightarrow> flt list" where
  "draws_at zs vol n g = map (\<lambda>i. fl_add (Fin 0) (fl_mul (vol ! i) (Fin (zs (g + i))))) [0..<n]"

definition draw0 :: "(nat \<Rightarrow> real) \<Rightarrow> flt \<Rightarrow> nat \<Rightarrow> flt" where
  "draw0 zs v g = fl_add (Fin 0) (fl_mul v (Fin (zs g)))"

text \<open>
  The random walk as the specification words it: \<open>m\<close> price vectors, each the one
  before it times one plus a fresh sample, the generator advancing by \<open>n\<close> draws a
  step; and the same walk for the first ticker alone.
\<close>

fun walk_from :: "(nat \<Rightarrow> real) \<Rightarrow> flt list \<Rightarrow> nat \<Rightarrow> nat \<Rightarrow> flt list \<Rightarrow> nat \<Rightarrow> flt list list" where
  "walk_from zs vol n 0 prev g = []"
| "walk_from zs vol n (Suc m) prev g =
     (let p = perturb prev (draws_at zs vol n g) in p # walk_from zs vol n m p (g + n))"

fun path0 :: "(nat \<Rightarrow> real) \<Rightarrow> flt \<Rightarrow> nat \<Rightarrow> nat \<Rightarrow> flt \<Rightarrow> nat \<Rightarrow> flt list" where
  "path0 zs v n 0 prev g = []"
| "path0 zs v n (Suc m) prev g =
     (let p = fl_mul prev (fl_add (Fin 1) (draw0 zs v g)) in p # path0 zs v n m p (g + n))"

text \<open>A one-ticker price table whose three daily returns are -1/2, 0 and 1/2.\<close>

definition walk4 :: frame where
  "walk4 = \<lparr>columns = [''AAPL''], rows = [(0, [Fin 4]), (1, [Fin 2]), (2, [Fin 2]), (3, [Fin 3])]\<rparr>"

text \<open>A provider that knows the one ticker of the scenario and nothing else.\<close>

definition fetch_aapl5 :: "string list \<Rightarrow> date \<Rightarrow> date \<Rightarrow> frame" where
  "fetch_aapl5 tickers_list start end_date =
     (if tickers_list = [''AAPL''] then aapl5 else \<lparr>columns = tickers_list, rows = []\<rparr>)"

text \<open>Equal to a decimal figure once rounded to four places.\<close>

fun approx4 :: "flt \<Rightarrow> real \<Rightarrow> bool" where
  "approx4 (Fin a) b = (\<bar>a - b\<bar> \<le> 5 / 100000)"
| "approx4 x b = False"

text \<open>The running product of a series up to and including position \<open>i\<close>.\<close>

definition running_product :: "flt list \<Rightarrow> nat \<Rightarrow> flt" where
  "running_product xs i = foldl fl_mul (Fin 1) (take (Suc i) xs)"

text \<open>A correlation that is a number between -1 and 1.\<close>

fun in_unit_range :: "flt \<Rightarrow> bool" where
  "in_unit_range (Fin a) = (- 1 \<le> a \<and> a \<le> 1)"
| "in_unit_range x = False"

text \<open>
  The Pearson coefficient of a list of pairs of finite observations: what
  \<open>corr_pair\<close> computes once the pairs with a NaN or an infinity are left out.
\<close>

definition pearson :: "(flt \<times> flt) list \<Rightarrow> flt" where
  "pearson ps =
     (let n = Fin (real (length ps));
          meanx = fl_div (fl_sum (map fst ps)) n;
          meany = fl_div (fl_sum (map snd ps)) n;
          covxy = fl_sum (map (\<lambda>p. fl_mul (fl_sub (fst p) meanx) (fl_sub (snd p) meany)) ps);
          ssqdm_x = fl_sum (map (\<lambda>p. fl_mul (fl_sub (fst p) meanx) (fl_sub (fst p) meanx)) ps);
          ssqdm_y = fl_sum (map (\<lambda>p. fl_mul (fl_sub (snd p) meany) (fl_sub (snd p) meany)) ps);
          divisor = fl_sqrt (fl_mul ssqdm_x ssqdm_y)
      in if divisor = Fin 0 then NaN else fl_div covxy divisor)"

text \<open>
  A price table with a second ticker whose price does not move: its daily returns are
  all zero.
\<close>

definition flat_pair :: frame where
  "flat_pair =
     \<lparr>columns = [''AAPL'', ''FLAT''],
      rows = [(0, [Fin 4, Fin 7]), (1, [Fin 2, Fin 7]), (2, [Fin 2, Fin 7]), (3, [Fin 3, Fin 7])]\<rparr>"

text \<open>
  A two-ticker price table: the daily returns of AAPL are -1/2, 0 and 1/2, those of TSLA
  are 1/2, 0 and -1/2, and the last prices are 3 and 6.
\<close>

definition pair4 :: frame where
  "pair4 =
     \<lparr>columns = [''AAPL'', ''TSLA''],
      rows = [(0, [Fin 4, Fin 8]), (1, [Fin 2, Fin 12]), (2, [Fin 2, Fin 12]), (3, [Fin 3, Fin 6])]\<rparr>"

text \<open>
  A provider that returns its columns sorted by ticker, whatever the order they were
  asked in, as \<^verbatim>\<open>yf.download\<close> does.
\<close>

definition fetch_sorted :: "string list \<Rightarrow> date \<Rightarrow> date \<Rightarrow> frame" where
  "fetch_sorted tickers_list start end_date =
     (if tickers_list = [''AAPL'', ''TSLA''] \<or> tickers_list = [''TSLA'', ''AAPL''] then pair4
      else \<lparr>columns = tickers_list, rows = []\<rparr>)"

text \<open>
  A stream of draws in which the positions read for the first of two tickers (the even
  ones) hold 1 and the positions read for the second hold -100.
\<close>

definition zs_even :: "nat \<Rightarrow> real" where
  "zs_even k = (if even k then 1 else - 100)"

section \<open>Arithmetic of cells\<close>

lemma isna_simps [simp]: "isna NaN" "\<not> isna (Fin a)" "\<not> isna PInf" "\<not> isna NInf"
  by (simp_all add: isna_def)

lemma fl_add_zero_left [simp]: "fl_add (Fin 0) x = x"
  by (cases x) auto

lemma fl_mul_one_left [simp]: "fl_mul (Fin 1) x = x"
  by (cases x) (auto simp: inf_signed_def)

lemma fl_add_NaN_right [simp]: "fl_add x NaN = NaN"
  by (cases x) auto

lemma fl_mul_NaN_right [simp]: "fl_mul x NaN = NaN"
  by (cases x) auto

lemma fl_div_NaN_right [simp]: "fl_div x NaN = NaN"
  by (cases x) auto

lemma fl_sub_NaN_left [simp]: "fl_sub NaN y = NaN"
  by (simp add: fl_sub_def)

lemma fl_mul_commute: "fl_mul x y = fl_mul y x"
  by (cases x; cases y) (auto simp: inf_signed_def)

section \<open>Properties of the input normalizer\<close>

lemma split_on_nonempty: "split_on sep s \<noteq> []"
  by (induction s) (auto simp: Let_def)

lemma length_split_on: "length (split_on sep s) = Suc (length (filter (\<lambda>c. c = sep) s))"
proof (induction s)
  case Nil
  show ?case by simp
next
  case (Cons c cs)
  have "split_on sep cs \<noteq> []" by (rule split_on_nonempty)
  then have "length (tl (split_on sep cs)) = length (filter (\<lambda>c. c = sep) cs)"
    using Cons.IH by simp
  then show ?case using Cons.IH by (simp add: Let_def)
qed

lemma split_on_pieces: "p \<in> set (split_on sep s) \<Longrightarrow> set p \<subseteq> set s - {sep}"
proof (induction s arbitrary: p)
  case Nil
  then show ?case by simp
next
  case (Cons c cs)
  let ?r = "split_on sep cs"
  have ne: "?r \<noteq> []" by (rule split_on_nonempty)
  then have hd_in: "hd ?r \<in> set ?r" by simp
  have tl_in: "set (tl ?r) \<subseteq> set ?r" using ne by (cases ?r) auto
  show ?case
  proof (cases "c = sep")
    case True
    with Cons.prems have "p = [] \<or> p \<in> set ?r" by (simp add: Let_def)
    then show ?thesis using Cons.IH True by auto
  next
    case False
    with Cons.prems have "p = c # hd ?r \<or> p \<in> set (tl ?r)" by (simp add: Let_def)
    then show ?thesis
    proof
      assume "p = c # hd ?r"
      then show ?thesis using Cons.IH [OF hd_in] False by auto
    next
      assume "p \<in> set (tl ?r)"
      then have "p \<in> set ?r" using tl_in by blast
      then show ?thesis using Cons.IH by auto
    qed
  qed
qed

lemma strip_blank: "\<forall>c\<in>set p. is_space c \<Longrightarrow> strip p = []"
proof -
  assume a: "\<forall>c\<in>set p. is_space c"
  then have h: "dropWhile is_space p = []" by simp
  show ?thesis unfolding strip_def h by simp
qed

text \<open>
  C10: the input normalizer never returns the empty list, and on an input made only of
  commas and whitespace (the empty string included) it returns one empty ticker for each
  comma, plus one.
\<close>

theorem ticker_list_blank:
  "ticker_list s \<noteq> [] \<and>
   ((\<forall>c\<in>set s. c = CHR '','' \<or> is_space c) \<longrightarrow>
      ticker_list s = replicate (Suc (length (filter (\<lambda>c. c = CHR '','') s))) [])"
proof
  show "ticker_list s \<noteq> []" by (simp add: ticker_list_def split_on_nonempty)
next
  show "(\<forall>c\<in>set s. c = CHR '','' \<or> is_space c) \<longrightarrow>
      ticker_list s = replicate (Suc (length (filter (\<lambda>c. c = CHR '','') s))) []"
  proof
    assume a: "\<forall>c\<in>set s. c = CHR '','' \<or> is_space c"
    have "\<forall>p\<in>set (split_on CHR '','' s). upper (strip p) = []"
    proof
      fix p assume "p \<in> set (split_on CHR '','' s)"
      then have "set p \<subseteq> set s - {CHR '',''}" by (rule split_on_pieces)
      with a have "\<forall>c\<in>set p. is_space c" by auto
      then show "upper (strip p) = []" by (simp add: strip_blank upper_def)
    qed
    then have "map (\<lambda>x. upper (strip x)) (split_on CHR '','' s)
        = replicate (length (split_on CHR '','' s)) []"
      by (simp add: map_replicate_const [symmetric] cong: map_cong)
    then show "ticker_list s = replicate (Suc (length (filter (\<lambda>c. c = CHR '','') s))) []"
      by (simp add: ticker_list_def length_split_on)
  qed
qed

theorem ticker_list_blank_witness:
  "list_all (\<lambda>c. c = CHR '','' \<or> is_space c) '' ,  '' \<and> ticker_list '' ,  '' = [[], []]
   \<and> ticker_list [] = [[]]"
  using ticker_list_blank [of "'' ,  ''"] ticker_list_blank [of "[]"]
  by (simp add: is_space_def)

section \<open>Daily returns\<close>

lemma length_ffill_from [simp]: "length (ffill_from prev rs) = length rs"
  by (induction prev rs rule: ffill_from.induct) (auto simp: Let_def)

lemma length_ffill [simp]: "length (ffill rs) = length rs"
  by (auto simp: ffill_def split: list.splits)

lemma columns_pct_change [simp]: "columns (pct_change pad t) = columns t"
  by (simp add: pct_change_def Let_def)

lemma columns_dropna [simp]: "columns (dropna t) = columns t"
  by (simp add: dropna_def)

lemma columns_daily_returns [simp]: "columns (daily_returns pad t) = columns t"
  by (simp add: daily_returns_def)

text \<open>Forward filling changes nothing where nothing is missing.\<close>

lemma fill_row_id:
  "length prev = length r \<Longrightarrow> list_all (\<lambda>c. \<not> isna c) r
     \<Longrightarrow> map2 (\<lambda>p c. if isna c then p else c) prev r = r"
  by (induction prev r rule: list_induct2) auto

lemma ffill_from_id:
  "list_all (\<lambda>r. length (snd r) = length prev \<and> list_all (\<lambda>c. \<not> isna c) (snd r)) rs
     \<Longrightarrow> ffill_from prev rs = rs"
proof (induction rs arbitrary: prev)
  case Nil
  show ?case by simp
next
  case (Cons r rs)
  obtain d v where r: "r = (d, v)" by (cases r)
  from Cons.prems r have v: "length prev = length v" "list_all (\<lambda>c. \<not> isna c) v"
    by auto
  have fill: "map2 (\<lambda>p c. if isna c then p else c) prev v = v"
    using v by (rule fill_row_id)
  from Cons.prems v
  have "list_all (\<lambda>r. length (snd r) = length v \<and> list_all (\<lambda>c. \<not> isna c) (snd r)) rs"
    by (auto simp: list_all_iff)
  then have "ffill_from v rs = rs" by (rule Cons.IH)
  then show ?case by (simp add: r fill)
qed

lemma ffill_id:
  assumes "list_all (\<lambda>r. length (snd r) = n \<and> list_all (\<lambda>c. \<not> isna c) (snd r)) rs"
  shows "ffill rs = rs"
proof (cases rs)
  case Nil
  then show ?thesis by (simp add: ffill_def)
next
  case (Cons r rest)
  obtain d v where r: "r = (d, v)" by (cases r)
  from assms Cons r
  have "list_all (\<lambda>r. length (snd r) = length v \<and> list_all (\<lambda>c. \<not> isna c) (snd r)) rest"
    by (auto simp: list_all_iff)
  then have "ffill_from v rest = rest" by (rule ffill_from_id)
  then show ?thesis by (simp add: ffill_def Cons r)
qed

text \<open>The quotient of two finite nonzero prices, minus one, is a number.\<close>

lemma pct_row_fin:
  "list_all nonzero_fin cur \<Longrightarrow> list_all nonzero_fin prev
     \<Longrightarrow> \<not> list_ex isna (pct_row cur prev)"
proof (induction cur arbitrary: prev)
  case Nil
  show ?case by (simp add: pct_row_def)
next
  case (Cons c cs)
  show ?case
  proof (cases prev)
    case Nil
    then show ?thesis by (simp add: pct_row_def)
  next
    case (Cons p ps)
    from Cons.prems(1) obtain a where a: "c = Fin a" by (cases c) auto
    from Cons.prems(2) Cons obtain b where b: "p = Fin b" "b \<noteq> 0" by (cases p) auto
    have "\<not> list_ex isna (pct_row cs ps)"
      using Cons.IH [of ps] Cons.prems Cons by simp
    then show ?thesis using a b Cons by (simp add: pct_row_def fl_sub_def)
  qed
qed

lemma pct_row_first:
  "cur \<noteq> [] \<Longrightarrow> 0 < n \<Longrightarrow> list_ex isna (pct_row cur (replicate n NaN))"
  by (cases cur; cases n) (auto simp: pct_row_def)

lemma pct_rows_kept:
  "list_all (\<lambda>r. list_all nonzero_fin (snd r)) rs \<Longrightarrow> list_all nonzero_fin p
     \<Longrightarrow> filter (\<lambda>r. \<not> list_ex isna (snd r))
           (map2 (\<lambda>cur prev. (fst cur, pct_row (snd cur) (snd prev))) rs
              (zip (map fst rs) (p # map snd rs)))
         = map2 (\<lambda>cur prev. (fst cur, pct_row (snd cur) (snd prev))) rs
              (zip (map fst rs) (p # map snd rs))"
proof (induction rs arbitrary: p)
  case Nil
  show ?case by simp
next
  case (Cons r rs)
  have keep: "\<not> list_ex isna (pct_row (snd r) p)"
    using Cons.prems pct_row_fin [of "snd r" p] by simp
  have "filter (\<lambda>r. \<not> list_ex isna (snd r))
           (map2 (\<lambda>cur prev. (fst cur, pct_row (snd cur) (snd prev))) rs
              (zip (map fst rs) (snd r # map snd rs)))
         = map2 (\<lambda>cur prev. (fst cur, pct_row (snd cur) (snd prev))) rs
              (zip (map fst rs) (snd r # map snd rs))"
    using Cons.prems by (intro Cons.IH) auto
  then show ?case using keep by simp
qed

lemma nonzero_fin_not_na: "nonzero_fin c \<Longrightarrow> \<not> isna c"
  by (cases c) auto

text \<open>The returns of a complete price table: every row but the first, each divided by
  the row before it.\<close>

lemma daily_returns_complete:
  assumes wf: "wf_frame t" and ne: "\<not> empty t" and fin: "all_cells nonzero_fin t"
  shows "rows (daily_returns pad t)
    = map2 (\<lambda>cur prev. (fst cur, pct_row (snd cur) (snd prev))) (tl (rows t))
        (zip (map fst (tl (rows t))) (map snd (rows t)))"
proof -
  from ne obtain r rest where rs: "rows t = r # rest" and cols: "0 < length (columns t)"
    by (cases "rows t") (auto simp: empty_def)
  have all: "list_all (\<lambda>r. list_all nonzero_fin (snd r)) (rows t)"
    using fin by (simp add: all_cells_def)
  have "list_all (\<lambda>r. length (snd r) = length (columns t) \<and> list_all (\<lambda>c. \<not> isna c) (snd r)) (rows t)"
    using wf all by (auto simp: wf_frame_def list_all_iff dest: nonzero_fin_not_na)
  then have fill: "ffill (rows t) = rows t" by (rule ffill_id)
  have data: "(if pad then ffill (rows t) else rows t) = rows t" using fill by simp
  have len: "length (snd r) = length (columns t)"
    using wf rs by (simp add: wf_frame_def)
  then have "snd r \<noteq> []" using cols by auto
  then have first: "list_ex isna (pct_row (snd r) (replicate (length (columns t)) NaN))"
    using cols by (rule pct_row_first)
  have rest: "filter (\<lambda>r. \<not> list_ex isna (snd r))
           (map2 (\<lambda>cur prev. (fst cur, pct_row (snd cur) (snd prev))) rest
              (zip (map fst rest) (snd r # map snd rest)))
         = map2 (\<lambda>cur prev. (fst cur, pct_row (snd cur) (snd prev))) rest
              (zip (map fst rest) (snd r # map snd rest))"
    using all rs by (intro pct_rows_kept) auto
  show ?thesis
    unfolding daily_returns_def dropna_def pct_change_def Let_def data shift1_def
    using first rest by (simp add: rs)
qed

text \<open>
  C1 (as amended): for a non-empty price table in which every price is a finite number
  other than zero, the returns table has exactly one row fewer than the price table: the
  rows of all dates but the first.
\<close>

theorem returns_row_count:
  assumes "wf_frame t" and "\<not> empty t" and "all_cells nonzero_fin t"
  shows "length (rows (daily_returns pad t)) + 1 = length (rows t)
    \<and> map fst (rows (daily_returns pad t)) = tl (map fst (rows t))"
proof -
  from assms(2) obtain r rest where rs: "rows t = r # rest"
    by (cases "rows t") (auto simp: empty_def)
  have len: "length (rows (daily_returns pad t)) = length rest"
    unfolding daily_returns_complete [OF assms] by (simp add: rs)
  have "map fst (map2 (\<lambda>cur prev. (fst cur, pct_row (snd cur) (snd prev))) rest
        (zip (map fst rest) (map snd (r # rest)))) = map fst rest"
    by (rule nth_equalityI) auto
  then show ?thesis using len unfolding daily_returns_complete [OF assms] by (simp add: rs)
qed

theorem returns_row_count_witness:
  "wf_frame aapl5 \<and> \<not> empty aapl5 \<and> all_cells nonzero_fin aapl5
    \<and> length (rows (daily_returns True aapl5)) + 1 = 5
    \<and> map fst (rows (daily_returns True aapl5)) = [1, 2, 3, 4]"
proof -
  have h: "wf_frame aapl5" "\<not> empty aapl5" "all_cells nonzero_fin aapl5"
    by (simp_all add: aapl5_def wf_frame_def empty_def all_cells_def)
  show ?thesis using h returns_row_count [OF h, of True] by (simp add: aapl5_def)
qed

text \<open>
  C1 as stated fails on a price table with missing cells: the table \<open>late_listing\<close>
  has four rows and its returns table has one row, not three.
\<close>

theorem returns_row_count_counterexample:
  "wf_frame late_listing \<and> \<not> empty late_listing
    \<and> length (rows late_listing) = 4
    \<and> length (rows (daily_returns True late_listing)) = 1
    \<and> length (rows (daily_returns False late_listing)) = 1"
  by (simp add: late_listing_def wf_frame_def empty_def daily_returns_def dropna_def
      pct_change_def pct_row_def shift1_def ffill_def Let_def fl_sub_def)

section \<open>The simulation loops\<close>

lemma fl_sqrt_not_neg: "\<not> fl_neg_sign (fl_sqrt x)"
  by (cases x) auto

lemma series_std_not_neg: "\<not> fl_neg_sign (series_std xs)"
  by (simp add: series_std_def Let_def fl_sqrt_not_neg)

lemma std_not_neg: "\<not> list_ex fl_neg_sign (std t)"
  by (simp add: std_def list_ex_iff series_std_not_neg)

lemma length_std [simp]: "length (std t) = length (columns t)"
  by (simp add: std_def)

lemma nth_std: "j < length (columns t) \<Longrightarrow> std t ! j = series_std (col t j)"
  by (simp add: std_def)

lemma normal_ok:
  "\<not> list_ex fl_neg_sign vol \<Longrightarrow> normal zs 0 vol n g = Inr (draws_at zs vol n g, g + n)"
  by (simp add: normal_def draws_at_def)

lemma length_draws_at [simp]: "length (draws_at zs vol n g) = n"
  by (simp add: draws_at_def)

lemma length_perturb [simp]: "length (perturb p d) = min (length p) (length d)"
  by (simp add: perturb_def)

lemma random_walk_spec:
  "\<not> list_ex fl_neg_sign vol \<Longrightarrow> length ps = Suc count \<Longrightarrow> count \<le> 251
     \<Longrightarrow> random_walk k zs vol n count ps g
         = Inr (ps @ walk_from zs vol n (min k (251 - count)) (last ps) g,
                g + min k (251 - count) * n)"
proof (induction k arbitrary: count ps g)
  case 0
  show ?case by simp
next
  case (Suc k)
  show ?case
  proof (cases "count = 251")
    case True
    then show ?thesis by simp
  next
    case False
    with Suc.prems have lt: "count < 251" by simp
    let ?p = "perturb (ps ! count) (draws_at zs vol n g)"
    have lastps: "ps ! count = last ps"
      using Suc.prems(2) by (cases ps rule: rev_cases) (auto simp: nth_append)
    have m: "min (Suc k) (251 - count) = Suc (min k (251 - Suc count))"
      using lt by arith
    have step: "random_walk (Suc k) zs vol n count ps g
        = random_walk k zs vol n (Suc count) (ps @ [?p]) (g + n)"
      using False Suc.prems by (simp add: normal_ok)
    have "random_walk k zs vol n (Suc count) (ps @ [?p]) (g + n)
        = Inr ((ps @ [?p]) @ walk_from zs vol n (min k (251 - Suc count)) (last (ps @ [?p])) (g + n),
               g + n + min k (251 - Suc count) * n)"
      using Suc.prems lt by (intro Suc.IH) auto
    then show ?thesis unfolding step m by (simp add: lastps Let_def)
  qed
qed

lemma firsts_walk:
  "length prev = n \<Longrightarrow> 0 < n
     \<Longrightarrow> firsts True (walk_from zs vol n m prev g) = Inr (path0 zs (vol ! 0) n m (hd prev) g)"
proof (induction m arbitrary: prev g)
  case 0
  show ?case by simp
next
  case (Suc m)
  let ?p = "perturb prev (draws_at zs vol n g)"
  from Suc.prems obtain v vs where prev: "prev = v # vs" by (cases prev) auto
  from Suc.prems have up: "[0..<n] = 0 # [1..<n]" by (simp add: upt_rec)
  let ?a = "fl_mul v (fl_add (Fin 1) (draw0 zs (vol ! 0) g))"
  have "?p = ?a # tl ?p"
    by (simp add: perturb_def draws_at_def prev up draw0_def)
  then obtain q where p: "?p = ?a # q" ..
  have "length ?p = n" using Suc.prems by simp
  then have "firsts True (walk_from zs vol n m ?p (g + n)) = Inr (path0 zs (vol ! 0) n m (hd ?p) (g + n))"
    using Suc.prems(2) by (rule Suc.IH)
  then have ih: "firsts True (walk_from zs vol n m (?a # q) (g + n)) = Inr (path0 zs (vol ! 0) n m ?a (g + n))"
    unfolding p by simp
  have "firsts True (walk_from zs vol n (Suc m) prev g)
      = firsts True ((?a # q) # walk_from zs vol n m (?a # q) (g + n))"
    unfolding walk_from.simps Let_def p ..
  also have "\<dots> = Inr (?a # path0 zs (vol ! 0) n m ?a (g + n))"
    by (simp add: ih)
  also have "?a # path0 zs (vol ! 0) n m ?a (g + n) = path0 zs (vol ! 0) n (Suc m) (hd prev) g"
    by (simp add: Let_def prev)
  finally show ?case .
qed


lemma firsts_KeyError: "ps \<noteq> [] \<Longrightarrow> firsts False ps = Inl KeyError"
  by (cases ps) auto

lemma simulate_path_spec:
  assumes "length last_price = n" and "0 < n" and "length (columns daily) = n"
  shows "simulate_path True zs last_price daily g
    = Inr (path0 zs (series_std (col daily 0)) n 252 (hd last_price) g, g + 252 * n)"
proof -
  let ?vol = "std daily"
  let ?price = "perturb last_price (draws_at zs ?vol n g)"
  have vol: "\<not> list_ex fl_neg_sign ?vol" by (rule std_not_neg)
  have rw: "random_walk num_days zs ?vol n 0 [?price] (g + n)
      = Inr ([?price] @ walk_from zs ?vol n (min num_days (251 - 0)) (last [?price]) (g + n),
             g + n + min num_days (251 - 0) * n)"
    using vol by (intro random_walk_spec) auto
  have m: "min num_days (251 - 0) = 251" by (simp add: num_days_def)
  have w: "[?price] @ walk_from zs ?vol n 251 ?price (g + n) = walk_from zs ?vol n (Suc 251) last_price g"
    by (simp only: walk_from.simps Let_def append.simps)
  have f: "firsts True (walk_from zs ?vol n (Suc 251) last_price g)
      = Inr (path0 zs (?vol ! 0) n (Suc 251) (hd last_price) g)"
    using assms(1,2) by (rule firsts_walk)
  have v0: "?vol ! 0 = series_std (col daily 0)"
    using assms by (simp add: nth_std)
  have s: "Suc 251 = 252" by simp
  have rw': "random_walk num_days zs ?vol n 0 [?price] (g + n)
      = Inr (walk_from zs ?vol n 252 last_price g, g + 252 * n)"
    using rw w unfolding m s by simp
  show ?thesis
    unfolding simulate_path_def Let_def assms(1) normal_ok [OF vol]
    using rw' f v0 unfolding s by simp
qed


lemma simulate_path_KeyError: "simulate_path False zs last_price daily g = Inl KeyError"
proof -
  let ?vol = "std daily"
  let ?n = "length last_price"
  let ?price = "perturb last_price (draws_at zs ?vol ?n g)"
  have vol: "\<not> list_ex fl_neg_sign ?vol" by (rule std_not_neg)
  have rw: "random_walk num_days zs ?vol ?n 0 [?price] (g + ?n)
      = Inr ([?price] @ walk_from zs ?vol ?n (min num_days (251 - 0)) (last [?price]) (g + ?n),
             g + ?n + min num_days (251 - 0) * ?n)"
    using vol by (intro random_walk_spec) auto
  have "firsts False ([?price] @ walk_from zs ?vol ?n (min num_days (251 - 0)) (last [?price]) (g + ?n))
      = Inl KeyError"
    by (rule firsts_KeyError) simp
  then show ?thesis
    unfolding simulate_path_def Let_def normal_ok [OF vol] using rw by simp
qed

lemma simulate_spec:
  assumes "length last_price = n" and "0 < n" and "length (columns daily) = n"
  shows "simulate k True zs last_price daily df g
    = Inr (df @ map (\<lambda>x. path0 zs (series_std (col daily 0)) n 252 (hd last_price) (g + x * (252 * n)))
                  [0..<k])"
proof (induction k arbitrary: df g)
  case 0
  show ?case by simp
next
  case (Suc k)
  let ?f = "\<lambda>g. path0 zs (series_std (col daily 0)) n 252 (hd last_price) g"
  have "map (\<lambda>x. ?f (g + x * (252 * n))) [0..<Suc k]
      = ?f g # map (\<lambda>x. ?f (g + 252 * n + x * (252 * n))) [0..<k]"
    by (simp add: upt_conv_Cons map_Suc_upt [symmetric] add.assoc del: upt_Suc)
  then show ?case
    by (simp add: simulate_path_spec [OF assms] Suc.IH del: upt_Suc)
qed


lemma simulate_KeyError: "0 < k \<Longrightarrow> simulate k False zs last_price daily df g = Inl KeyError"
  by (cases k) (simp_all add: simulate_path_KeyError)

lemma length_path0 [simp]: "length (path0 zs v n m prev g) = m"
  by (induction m arbitrary: prev g) (auto simp: Let_def)

lemma path0_nth:
  "t < m \<Longrightarrow> path0 zs v n m prev g ! t
     = fl_mul (if t = 0 then prev else path0 zs v n m prev g ! (t - 1))
         (fl_add (Fin 1) (draw0 zs v (g + t * n)))"
proof (induction m arbitrary: prev g t)
  case 0
  then show ?case by simp
next
  case (Suc m)
  show ?case
  proof (cases t)
    case 0
    then show ?thesis by (simp add: Let_def)
  next
    case (Suc u)
    let ?p = "fl_mul prev (fl_add (Fin 1) (draw0 zs v g))"
    from Suc Suc.prems have u: "u < m" by simp
    have "path0 zs v n m ?p (g + n) ! u
        = fl_mul (if u = 0 then ?p else path0 zs v n m ?p (g + n) ! (u - 1))
            (fl_add (Fin 1) (draw0 zs v (g + n + u * n)))"
      using u by (rule Suc.IH)
    then show ?thesis using Suc by (cases u) (simp_all add: Let_def add.assoc)
  qed
qed

lemma path0_pos:
  "fl_pos prev \<Longrightarrow> \<forall>t<m. fl_pos (fl_add (Fin 1) (draw0 zs v (g + t * n)))
     \<Longrightarrow> list_all fl_pos (path0 zs v n m prev g)"
proof (induction m arbitrary: prev g)
  case 0
  show ?case by simp
next
  case (Suc m)
  let ?p = "fl_mul prev (fl_add (Fin 1) (draw0 zs v g))"
  have pos: "fl_pos x \<Longrightarrow> fl_pos y \<Longrightarrow> fl_pos (fl_mul x y)" for x y
    by (cases x; cases y) (auto simp: inf_signed_def)
  have "fl_pos (fl_add (Fin 1) (draw0 zs v (g + 0 * n)))"
    using Suc.prems(2) by blast
  then have p: "fl_pos ?p" using Suc.prems(1) by (intro pos) simp_all
  have "\<forall>t<m. fl_pos (fl_add (Fin 1) (draw0 zs v (g + n + t * n)))"
  proof (intro allI impI)
    fix t assume "t < m"
    then have "Suc t < Suc m" by simp
    with Suc.prems(2) have "fl_pos (fl_add (Fin 1) (draw0 zs v (g + Suc t * n)))"
      by blast
    then show "fl_pos (fl_add (Fin 1) (draw0 zs v (g + n + t * n)))"
      by (simp add: add.assoc)
  qed
  with p have "list_all fl_pos (path0 zs v n m ?p (g + n))"
    by (rule Suc.IH)
  then show ?case using p by (simp add: Let_def)
qed

lemma path0_NaN: "path0 zs NaN n m prev g = replicate m NaN"
  by (induction m arbitrary: prev g) (auto simp: Let_def draw0_def)

section \<open>The pipeline\<close>

text \<open>What the pipeline returns on every non-empty price table.\<close>

lemma pipeline_Loaded:
  assumes wf: "wf_frame sd" and ne: "\<not> empty sd"
  shows "pipeline pad zs sd =
     Loaded \<lparr>preview = tail sd, price_history = sd,
       returns = daily_returns pad sd,
       risk_df = zip (columns sd) (annualized_risk (std (daily_returns pad sd))),
       correlation_matrix = corr (daily_returns pad sd),
       cumulative = cumulative_returns (daily_returns pad sd),
       simulation =
         (if pad
          then Inr (map (\<lambda>x. path0 zs (series_std (col (daily_returns pad sd) 0))
                              (length (columns sd)) 252 (snd (last (rows sd)) ! 0)
                              (x * (252 * length (columns sd))))
                     [0..<50])
          else Inl KeyError)\<rparr>"
proof -
  from ne have rs: "rows sd \<noteq> []" and cols: "0 < length (columns sd)"
    by (auto simp: empty_def)
  let ?last = "snd (last (rows sd))"
  have "last (rows sd) \<in> set (rows sd)" using rs by simp
  then have len: "length ?last = length (columns sd)"
    using wf by (simp add: wf_frame_def list_all_iff)
  have il: "iloc_last sd = Inr ?last" using rs by (simp add: iloc_last_def)
  have "?last \<noteq> []" using len cols by auto
  then have hd0: "hd ?last = ?last ! 0" by (rule hd_conv_nth)
  have sim: "simulate num_simulations True zs ?last (daily_returns pad sd) [] 0
      = Inr ([] @ map (\<lambda>x. path0 zs (series_std (col (daily_returns pad sd) 0))
                (length (columns sd)) 252 (hd ?last) (0 + x * (252 * length (columns sd))))
            [0..<num_simulations])"
    using len cols by (intro simulate_spec) auto
  have sim': "simulate 50 True zs ?last (daily_returns pad sd) [] 0
      = Inr (map (\<lambda>x. path0 zs (series_std (col (daily_returns pad sd) 0))
                (length (columns sd)) 252 (?last ! 0) (x * (252 * length (columns sd))))
            [0..<50])"
    using sim by (simp add: num_simulations_def hd0)
  have err: "simulate 50 False zs ?last (daily_returns pad sd) [] 0 = Inl KeyError"
    by (rule simulate_KeyError) simp
  show ?thesis
  proof (cases pad)
    case True
    then show ?thesis
      using ne sim' by (simp add: pipeline_def Let_def il num_simulations_def)
  next
    case False
    then show ?thesis
      using ne err by (simp add: pipeline_def Let_def il num_simulations_def)
  qed
qed

lemma pipeline_NoData:
  "empty sd \<Longrightarrow> pipeline pad zs sd = NoData ''No data found. Please check ticker symbols.''"
  by (simp add: pipeline_def)

lemma pipeline_not_NoData: "\<not> empty sd \<Longrightarrow> pipeline pad zs sd \<noteq> NoData m"
  by (simp add: pipeline_def Let_def)

text \<open>
  From pandas 3 on, the Monte Carlo section of every run on a non-empty price table ends
  with KeyError, after the earlier tables were computed.
\<close>

lemma simulation_KeyError:
  assumes "wf_frame sd" and "\<not> empty sd"
  shows "\<exists>a. pipeline False zs sd = Loaded a \<and> simulation a = Inl KeyError"
  unfolding pipeline_Loaded [OF assms] by simp

text \<open>
  C2: on an empty price table the analysis is the error message alone, with no returns,
  risk, correlation, cumulative return or simulation in it; on a non-empty price table
  the no-data branch is never the outcome.
\<close>

theorem no_data_branch:
  "(empty (download (ticker_list tickers) start_date end_date) \<longrightarrow>
      analyze download pad zs tickers start_date end_date
        = NoData ''No data found. Please check ticker symbols.'')
   \<and> (\<not> empty (download (ticker_list tickers) start_date end_date) \<longrightarrow>
      (\<forall>m. analyze download pad zs tickers start_date end_date \<noteq> NoData m))"
  by (simp add: analyze_def get_data_def pipeline_NoData pipeline_not_NoData)

theorem no_data_branch_witness:
  "empty \<lparr>columns = [], rows = []\<rparr>
   \<and> analyze (\<lambda>ts s e. \<lparr>columns = [], rows = []\<rparr>) True (\<lambda>k. 0) ''ZZZZ'' 0 1
        = NoData ''No data found. Please check ticker symbols.''
   \<and> \<not> empty aapl5
   \<and> analyze (\<lambda>ts s e. aapl5) True (\<lambda>k. 0) ''AAPL'' 0 5 \<noteq> NoData ''''"
  using no_data_branch [of "\<lambda>ts s e. \<lparr>columns = [], rows = []\<rparr>" "''ZZZZ''" 0 1 True "\<lambda>k. 0"]
    no_data_branch [of "\<lambda>ts s e. aapl5" "''AAPL''" 0 5 True "\<lambda>k. 0"]
  by (simp add: empty_def aapl5_def)

section \<open>Simulated paths\<close>

lemma ticker_list_nonempty: "ticker_list s \<noteq> []"
  by (simp add: ticker_list_def split_on_nonempty)

text \<open>
  C4, what the simulation stores with pandas before version 3: for every stream of draws
  every stored path starts at the last observed price of the first column of the fetched
  price table times one plus a sample of Normal(0, daily volatility of that column), and
  each later value is the one before it times one plus a fresh sample; only that column
  is kept. Path \<open>x\<close> reads the draw of its step \<open>t\<close> at position
  \<open>(x * 252 + t) * n\<close> of the stream, \<open>n\<close> being the number of columns. The first
  column is the first ticker of the user's list when the provider returns the columns in
  the order of that list.
\<close>

theorem simulation_random_walk:
  assumes "sd = download (ticker_list tickers) start_date end_date"
    and "wf_frame sd"
    and "analyze download True zs tickers start_date end_date = Loaded a"
    and "x < 50"
  shows "\<exists>paths. simulation a = Inr paths
    \<and> paths ! x ! 0
        = fl_mul (snd (last (rows sd)) ! 0)
            (fl_add (Fin 1) (draw0 zs (series_std (col (returns a) 0)) (x * 252 * length (columns sd))))
    \<and> (\<forall>t<251. paths ! x ! Suc t
          = fl_mul (paths ! x ! t)
              (fl_add (Fin 1)
                 (draw0 zs (series_std (col (returns a) 0)) ((x * 252 + Suc t) * length (columns sd)))))
    \<and> (columns sd = ticker_list tickers \<longrightarrow> columns sd ! 0 = hd (ticker_list tickers))"
proof -
  have run: "pipeline True zs sd = Loaded a"
    using assms(1,3) by (simp add: analyze_def get_data_def)
  have ne: "\<not> empty sd"
    using run by (auto simp: pipeline_def)
  let ?n = "length (columns sd)"
  let ?v = "series_std (col (daily_returns True sd) 0)"
  let ?paths = "map (\<lambda>x. path0 zs ?v ?n 252 (snd (last (rows sd)) ! 0) (x * (252 * ?n))) [0..<50]"
  let ?path = "path0 zs ?v ?n 252 (snd (last (rows sd)) ! 0) (x * (252 * ?n))"
  from run have a: "returns a = daily_returns True sd" and s: "simulation a = Inr ?paths"
    unfolding pipeline_Loaded [OF assms(2) ne] by auto
  have col: "?paths ! x = ?path"
    using assms(4) by simp
  have first: "?path ! 0 = fl_mul (snd (last (rows sd)) ! 0)
      (fl_add (Fin 1) (draw0 zs ?v (x * (252 * ?n) + 0 * ?n)))"
    using path0_nth [of 0 252 zs ?v ?n "snd (last (rows sd)) ! 0" "x * (252 * ?n)"] by simp
  have later: "?path ! Suc t = fl_mul (?path ! t)
      (fl_add (Fin 1) (draw0 zs ?v ((x * 252 + Suc t) * ?n)))" if "t < 251" for t
  proof -
    have e: "x * (252 * ?n) + Suc t * ?n = (x * 252 + Suc t) * ?n"
      by (simp add: algebra_simps)
    have "Suc t < 252" using that by simp
    then have "?path ! Suc t
        = fl_mul (if Suc t = 0 then snd (last (rows sd)) ! 0 else ?path ! (Suc t - 1))
            (fl_add (Fin 1) (draw0 zs ?v (x * (252 * ?n) + Suc t * ?n)))"
      by (rule path0_nth)
    then show ?thesis
      by (simp only: e nat.simps if_False diff_Suc_1)
  qed
  have label: "columns sd ! 0 = hd (ticker_list tickers)" if "columns sd = ticker_list tickers"
    unfolding that using ticker_list_nonempty [of tickers] by (simp add: hd_conv_nth)
  have "?paths ! x ! 0
        = fl_mul (snd (last (rows sd)) ! 0)
            (fl_add (Fin 1) (draw0 zs (series_std (col (returns a) 0)) (x * 252 * ?n)))"
    unfolding col a using first by (simp add: mult.assoc)
  moreover have "\<forall>t<251. ?paths ! x ! Suc t
          = fl_mul (?paths ! x ! t)
              (fl_add (Fin 1) (draw0 zs (series_std (col (returns a) 0)) ((x * 252 + Suc t) * ?n)))"
    unfolding col a using later by blast
  ultimately show ?thesis using s label by blast
qed

lemma wf_walk4: "wf_frame walk4" "\<not> empty walk4"
  by (simp_all add: walk4_def wf_frame_def empty_def)

lemma returns_walk4:
  "rows (daily_returns pad walk4) = [(1, [Fin (- (1 / 2))]), (2, [Fin 0]), (3, [Fin (1 / 2)])]"
  by (cases pad)
    (simp_all add: walk4_def daily_returns_def dropna_def pct_change_def pct_row_def shift1_def
      ffill_def Let_def fl_sub_def)

lemma sqrt_quarter: "sqrt (1 / 4) = 1 / 2"
  by (rule real_sqrt_unique) (simp_all add: power2_eq_square)

lemma std_walk4: "series_std (col (daily_returns pad walk4) 0) = Fin (1 / 2)"
  using sqrt_quarter
  by (simp add: col_def returns_walk4 series_std_def fl_sum_def fl_sub_def Let_def)

lemma wf_pair4: "wf_frame pair4" "\<not> empty pair4"
  by (simp_all add: pair4_def wf_frame_def empty_def)

lemma returns_pair4:
  "rows (daily_returns pad pair4)
     = [(1, [Fin (- (1 / 2)), Fin (1 / 2)]), (2, [Fin 0, Fin 0]), (3, [Fin (1 / 2), Fin (- (1 / 2))])]"
  by (cases pad)
    (simp_all add: pair4_def daily_returns_def dropna_def pct_change_def pct_row_def shift1_def
      ffill_def Let_def fl_sub_def)

lemma col_pair4:
  "col (daily_returns pad pair4) 0 = [Fin (- (1 / 2)), Fin 0, Fin (1 / 2)]"
  "col (daily_returns pad pair4) 1 = [Fin (1 / 2), Fin 0, Fin (- (1 / 2))]"
  by (simp_all add: col_def returns_pair4)

lemma std_pair4:
  "series_std (col (daily_returns pad pair4) 0) = Fin (1 / 2)"
  "series_std (col (daily_returns pad pair4) 1) = Fin (1 / 2)"
  unfolding col_pair4 using sqrt_quarter
  by (simp_all add: series_std_def fl_sum_def fl_sub_def Let_def)

lemma ticker_list_lower: "ticker_list '' aapl, tsla'' = [''AAPL'', ''TSLA'']"
  by code_simp

lemma ticker_list_reversed: "ticker_list ''TSLA,AAPL'' = [''TSLA'', ''AAPL'']"
  by (simp add: ticker_list_def strip_def upper_def upper_char_def is_space_def Let_def)

theorem simulation_random_walk_witness:
  "wf_frame pair4 \<and> ticker_list '' aapl, tsla'' = columns pair4
   \<and> (\<exists>a paths. analyze fetch_sorted True (\<lambda>k. if k = 504 then 1 else if k = 506 then 2 else 0)
                    '' aapl, tsla'' 0 1 = Loaded a
        \<and> simulation a = Inr paths
        \<and> paths ! 1 ! 0 = Fin (9 / 2) \<and> paths ! 1 ! 1 = Fin 9
        \<and> columns pair4 ! 0 = ''AAPL'')"
proof -
  let ?zs = "\<lambda>k :: nat. if k = 504 then 1 else if k = 506 then 2 else (0 :: real)"
  have sd: "pair4 = fetch_sorted (ticker_list '' aapl, tsla'') 0 1"
    by (simp add: ticker_list_lower fetch_sorted_def)
  have run: "analyze fetch_sorted True ?zs '' aapl, tsla'' 0 1 = pipeline True ?zs pair4"
    unfolding analyze_def get_data_def sd [symmetric] ..
  obtain a where a: "analyze fetch_sorted True ?zs '' aapl, tsla'' 0 1 = Loaded a"
    unfolding run using pipeline_Loaded [OF wf_pair4] by blast
  have r: "returns a = daily_returns True pair4"
    using a unfolding run pipeline_Loaded [OF wf_pair4] by auto
  have v: "series_std (col (returns a) 0) = Fin (1 / 2)"
    unfolding r by (rule std_pair4)
  have l: "snd (last (rows pair4)) ! 0 = Fin 3" and n: "length (columns pair4) = 2"
    by (simp_all add: pair4_def)
  have c: "ticker_list '' aapl, tsla'' = columns pair4"
    by (simp add: ticker_list_lower pair4_def)
  have "(1::nat) < 50" by simp
  from simulation_random_walk [OF sd wf_pair4(1) a this]
  obtain paths where p: "simulation a = Inr paths"
    and p0: "paths ! 1 ! 0 = fl_mul (Fin 3) (fl_add (Fin 1) (draw0 ?zs (Fin (1 / 2)) (1 * 252 * 2)))"
    and pt: "\<forall>t<251. paths ! 1 ! Suc t
          = fl_mul (paths ! 1 ! t) (fl_add (Fin 1) (draw0 ?zs (Fin (1 / 2)) ((1 * 252 + Suc t) * 2)))"
    and lab: "columns pair4 = ticker_list '' aapl, tsla'' \<longrightarrow> columns pair4 ! 0 = hd (ticker_list '' aapl, tsla'')"
    unfolding v l n by blast
  have v0: "paths ! 1 ! 0 = Fin (9 / 2)"
    using p0 by (simp add: draw0_def)
  have "paths ! 1 ! Suc 0 = fl_mul (paths ! 1 ! 0) (fl_add (Fin 1) (draw0 ?zs (Fin (1 / 2)) ((1 * 252 + Suc 0) * 2)))"
    using pt by simp
  then have v1: "paths ! 1 ! 1 = Fin 9"
    unfolding v0 by (simp add: draw0_def)
  have "hd (ticker_list '' aapl, tsla'') = ''AAPL''" by (simp add: ticker_list_lower)
  with lab c have "columns pair4 ! 0 = ''AAPL''" by simp
  then show ?thesis using a p v0 v1 c wf_pair4(1) by blast
qed

text \<open>
  C4 on a provider that sorts its columns: asked for TSLA and AAPL in that order, it puts
  AAPL first, and the stored path is the walk of AAPL (from its last price 3), not that
  of TSLA, the first ticker of the user's list (last price 6), which the source's
  comments and caption name as the one plotted.
\<close>

theorem simulation_first_ticker_counterexample:
  "ticker_list ''TSLA,AAPL'' = [''TSLA'', ''AAPL'']
   \<and> columns (fetch_sorted (ticker_list ''TSLA,AAPL'') 0 1) = [''AAPL'', ''TSLA'']
   \<and> (\<exists>a paths. analyze fetch_sorted True (\<lambda>k. 1) ''TSLA,AAPL'' 0 1 = Loaded a
        \<and> simulation a = Inr paths
        \<and> snd (last (rows (price_history a))) = [Fin 3, Fin 6]
        \<and> series_std (col (returns a) 0) = Fin (1 / 2)
        \<and> series_std (col (returns a) 1) = Fin (1 / 2)
        \<and> paths ! 0 ! 0 = Fin (9 / 2))"
proof -
  let ?zs = "\<lambda>k :: nat. 1 :: real"
  have sd: "pair4 = fetch_sorted (ticker_list ''TSLA,AAPL'') 0 1"
    by (simp add: ticker_list_reversed fetch_sorted_def)
  have run: "analyze fetch_sorted True ?zs ''TSLA,AAPL'' 0 1 = pipeline True ?zs pair4"
    unfolding analyze_def get_data_def sd [symmetric] ..
  let ?paths = "map (\<lambda>x. path0 ?zs (series_std (col (daily_returns True pair4) 0))
                  (length (columns pair4)) 252 (snd (last (rows pair4)) ! 0)
                  (x * (252 * length (columns pair4)))) [0..<50]"
  obtain a where a: "analyze fetch_sorted True ?zs ''TSLA,AAPL'' 0 1 = Loaded a"
    unfolding run using pipeline_Loaded [OF wf_pair4] by blast
  have r: "returns a = daily_returns True pair4" and h: "price_history a = pair4"
    and s: "simulation a = Inr ?paths"
    using a unfolding run pipeline_Loaded [OF wf_pair4] by auto
  have v0: "series_std (col (returns a) 0) = Fin (1 / 2)"
    and v1: "series_std (col (returns a) 1) = Fin (1 / 2)"
    unfolding r by (rule std_pair4)+
  have l: "snd (last (rows (price_history a))) = [Fin 3, Fin 6]"
    unfolding h by (simp add: pair4_def)
  have "?paths ! 0 = path0 ?zs (series_std (col (daily_returns True pair4) 0))
                  (length (columns pair4)) 252 (snd (last (rows pair4)) ! 0) 0"
    by (simp add: upt_rec [of 0 50])
  moreover have l0: "snd (last (rows pair4)) ! 0 = Fin 3" by (simp add: pair4_def)
  have "(0::nat) < 252" by simp
  from path0_nth [OF this]
  have "path0 ?zs (series_std (col (daily_returns True pair4) 0))
                  (length (columns pair4)) 252 (snd (last (rows pair4)) ! 0) 0 ! 0 = Fin (9 / 2)"
    by (simp add: std_pair4 draw0_def l0)
  ultimately have p: "?paths ! 0 ! 0 = Fin (9 / 2)" by simp
  have c: "columns (fetch_sorted (ticker_list ''TSLA,AAPL'') 0 1) = [''AAPL'', ''TSLA'']"
    unfolding sd [symmetric] by (simp add: pair4_def)
  show ?thesis using a s l v0 v1 p c ticker_list_reversed by blast
qed

text \<open>
  C5 (as amended): with pandas before version 3, on every non-empty price table and for
  every stream of draws the simulation table has 50 columns of 252 values; in exact
  arithmetic every value is strictly positive when the last price of the first column is
  positive and each sampled return that the simulation reads for that column (path
  \<open>x\<close>, step \<open>t\<close>, at position \<open>(x * 252 + t) * n\<close> of the stream) is greater than -1.
\<close>

theorem simulation_shape_positive:
  assumes "wf_frame sd" and "pipeline True zs sd = Loaded a"
  shows "\<exists>paths. simulation a = Inr paths
    \<and> length paths = 50 \<and> list_all (\<lambda>c. length c = 252) paths
    \<and> (fl_pos (snd (last (rows sd)) ! 0)
          \<and> (\<forall>x<50. \<forall>t<252.
                fl_pos (fl_add (Fin 1)
                  (draw0 zs (series_std (col (returns a) 0)) ((x * 252 + t) * length (columns sd)))))
        \<longrightarrow> list_all (list_all fl_pos) paths)"
proof -
  have ne: "\<not> empty sd"
    using assms(2) by (auto simp: pipeline_def)
  let ?n = "length (columns sd)"
  let ?v = "series_std (col (daily_returns True sd) 0)"
  let ?paths = "map (\<lambda>x. path0 zs ?v ?n 252 (snd (last (rows sd)) ! 0) (x * (252 * ?n))) [0..<50]"
  from assms(2) have a: "returns a = daily_returns True sd" and s: "simulation a = Inr ?paths"
    unfolding pipeline_Loaded [OF assms(1) ne] by auto
  have len: "length ?paths = 50" by simp
  have cols: "list_all (\<lambda>c. length c = 252) ?paths"
    by (simp add: list_all_iff)
  have pos: "list_all (list_all fl_pos) ?paths"
    if last: "fl_pos (snd (last (rows sd)) ! 0)"
      and draws: "\<forall>x<50. \<forall>t<252. fl_pos (fl_add (Fin 1) (draw0 zs ?v ((x * 252 + t) * ?n)))"
  proof -
    have "list_all fl_pos (path0 zs ?v ?n 252 (snd (last (rows sd)) ! 0) (x * (252 * ?n)))"
      if x: "x < 50" for x
    proof (rule path0_pos [OF last], intro allI impI)
      fix t :: nat assume "t < 252"
      with x draws have "fl_pos (fl_add (Fin 1) (draw0 zs ?v ((x * 252 + t) * ?n)))" by blast
      moreover have "(x * 252 + t) * ?n = x * (252 * ?n) + t * ?n"
        by (simp add: algebra_simps)
      ultimately show "fl_pos (fl_add (Fin 1) (draw0 zs ?v (x * (252 * ?n) + t * ?n)))"
        by simp
    qed
    then show ?thesis by (simp add: list_all_iff)
  qed
  show ?thesis unfolding a using s len cols pos by blast
qed

lemma zs_even_read: "zs_even ((x * 252 + t) * 2) = 1"
  by (simp add: zs_even_def)

theorem simulation_shape_positive_witness:
  "wf_frame pair4 \<and> zs_even 1 = - 100
   \<and> (\<exists>a paths. pipeline True zs_even pair4 = Loaded a
        \<and> simulation a = Inr paths
        \<and> fl_pos (snd (last (rows pair4)) ! 0)
        \<and> series_std (col (returns a) 0) = Fin (1 / 2)
        \<and> length paths = 50 \<and> list_all (\<lambda>c. length c = 252) paths
        \<and> list_all (list_all fl_pos) paths)"
proof -
  obtain a where a: "pipeline True zs_even pair4 = Loaded a"
    using pipeline_Loaded [OF wf_pair4] by blast
  have r: "returns a = daily_returns True pair4"
    using a unfolding pipeline_Loaded [OF wf_pair4] by auto
  have v: "series_std (col (returns a) 0) = Fin (1 / 2)"
    unfolding r by (rule std_pair4)
  have l: "fl_pos (snd (last (rows pair4)) ! 0)" and n: "length (columns pair4) = 2"
    by (simp_all add: pair4_def)
  have d: "\<forall>x<50. \<forall>t<252. fl_pos (fl_add (Fin 1)
      (draw0 zs_even (series_std (col (returns a) 0)) ((x * 252 + t) * length (columns pair4))))"
    unfolding v n draw0_def zs_even_read by simp
  have z: "zs_even 1 = - 100" by (simp add: zs_even_def)
  from simulation_shape_positive [OF wf_pair4(1) a]
  show ?thesis using a v l d z wf_pair4(1) by blast
qed

text \<open>
  C5 as stated fails: with last price 3 and daily volatility 1/2, both positive, a first
  standard draw of -4 gives the sampled return -2, and the first simulated value is -3.
\<close>

theorem simulation_positive_counterexample:
  "wf_frame walk4 \<and> \<not> empty walk4
   \<and> (\<exists>a paths. pipeline True (\<lambda>k. - 4) walk4 = Loaded a
        \<and> simulation a = Inr paths
        \<and> snd (last (rows walk4)) ! 0 = Fin 3
        \<and> series_std (col (returns a) 0) = Fin (1 / 2)
        \<and> paths ! 0 ! 0 = Fin (- 3))"
proof -
  let ?sim = "map (\<lambda>x. path0 (\<lambda>k. - 4) (series_std (col (daily_returns True walk4) 0))
                  (length (columns walk4)) 252 (snd (last (rows walk4)) ! 0)
                  (x * (252 * length (columns walk4)))) [0..<50]"
  obtain a where a: "pipeline True (\<lambda>k. - 4) walk4 = Loaded a"
    using pipeline_Loaded [OF wf_walk4] by blast
  have r: "returns a = daily_returns True walk4" and s: "simulation a = Inr ?sim"
    using a unfolding pipeline_Loaded [OF wf_walk4] by auto
  have v: "series_std (col (returns a) 0) = Fin (1 / 2)"
    unfolding r by (rule std_walk4)
  have l: "snd (last (rows walk4)) ! 0 = Fin 3" by (simp add: walk4_def)
  have "?sim ! 0 = path0 (\<lambda>k. - 4) (series_std (col (daily_returns True walk4) 0))
                  (length (columns walk4)) 252 (snd (last (rows walk4)) ! 0) 0"
    by (simp add: upt_rec [of 0 50])
  moreover have "(0::nat) < 252" by simp
  from path0_nth [OF this]
  have "path0 (\<lambda>k. - 4) (series_std (col (daily_returns True walk4) 0))
                  (length (columns walk4)) 252 (snd (last (rows walk4)) ! 0) 0 ! 0 = Fin (- 3)"
    by (simp add: std_walk4 l draw0_def)
  ultimately have "?sim ! 0 ! 0 = Fin (- 3)" by simp
  then show ?thesis using a s v l wf_walk4 by blast
qed

section \<open>Annualized risk\<close>

text \<open>
  C3: for every ticker whose daily returns have standard deviation \<open>\<sigma>\<close>, the risk
  table holds \<open>\<sigma> * sqrt 252 * 100\<close> for that ticker.
\<close>

theorem annualized_risk_value:
  assumes "wf_frame sd" and "pipeline pad zs sd = Loaded a" and "j < length (columns sd)"
    and "series_std (col (returns a) j) = Fin \<sigma>"
  shows "risk_df a ! j = (columns sd ! j, Fin (\<sigma> * sqrt 252 * 100))"
proof -
  have ne: "\<not> empty sd"
    using assms(2) by (auto simp: pipeline_def)
  from assms(2) have a: "returns a = daily_returns pad sd"
    and r: "risk_df a = zip (columns sd) (annualized_risk (std (daily_returns pad sd)))"
    unfolding pipeline_Loaded [OF assms(1) ne] by auto
  have "std (daily_returns pad sd) ! j = Fin \<sigma>"
    using assms(3,4) unfolding a by (simp add: nth_std)
  then show ?thesis
    using assms(3) unfolding r by (simp add: annualized_risk_def)
qed

theorem annualized_risk_value_witness:
  "wf_frame walk4
   \<and> (\<exists>a. pipeline True (\<lambda>k. 1) walk4 = Loaded a
        \<and> series_std (col (returns a) 0) = Fin (1 / 2)
        \<and> risk_df a ! 0 = (''AAPL'', Fin (1 / 2 * sqrt 252 * 100)))"
proof -
  obtain a where a: "pipeline True (\<lambda>k. 1) walk4 = Loaded a"
    using pipeline_Loaded [OF wf_walk4] by blast
  have r: "returns a = daily_returns True walk4"
    using a unfolding pipeline_Loaded [OF wf_walk4] by auto
  have v: "series_std (col (returns a) 0) = Fin (1 / 2)"
    unfolding r by (rule std_walk4)
  have j: "0 < length (columns walk4)" by (simp add: walk4_def)
  from annualized_risk_value [OF wf_walk4(1) a j v]
  show ?thesis using a v wf_walk4(1) by (auto simp: walk4_def)
qed

section \<open>Shape of the returns table\<close>

lemma ffill_from_wf:
  "length prev = n \<Longrightarrow> list_all (\<lambda>r. length (snd r) = n) rs
     \<Longrightarrow> list_all (\<lambda>r. length (snd r) = n) (ffill_from prev rs)"
proof (induction rs arbitrary: prev)
  case Nil
  show ?case by simp
next
  case (Cons r rs)
  obtain d v where r: "r = (d, v)" by (cases r)
  let ?v = "map2 (\<lambda>p c. if isna c then p else c) prev v"
  have v: "length ?v = n" using Cons.prems r by simp
  then have "list_all (\<lambda>r. length (snd r) = n) (ffill_from ?v rs)"
    using Cons.prems by (intro Cons.IH) auto
  then show ?case using v by (simp add: r Let_def)
qed

lemma ffill_wf:
  "list_all (\<lambda>r. length (snd r) = n) rs \<Longrightarrow> list_all (\<lambda>r. length (snd r) = n) (ffill rs)"
  by (cases rs) (auto simp: ffill_def intro: ffill_from_wf)

lemma pct_rows_wf:
  "list_all (\<lambda>r. length (snd r) = n) rs \<Longrightarrow> length p = n
     \<Longrightarrow> list_all (\<lambda>r. length (snd r) = n)
           (map2 (\<lambda>cur prev. (fst cur, pct_row (snd cur) (snd prev))) rs
              (zip (map fst rs) (p # map snd rs)))"
proof (induction rs arbitrary: p)
  case Nil
  show ?case by simp
next
  case (Cons r rs)
  have "list_all (\<lambda>r. length (snd r) = n)
           (map2 (\<lambda>cur prev. (fst cur, pct_row (snd cur) (snd prev))) rs
              (zip (map fst rs) (snd r # map snd rs)))"
    using Cons.prems by (intro Cons.IH) auto
  then show ?case using Cons.prems by (simp add: pct_row_def)
qed

lemma list_all_filter: "list_all P xs \<Longrightarrow> list_all P (filter Q xs)"
  by (simp add: list_all_iff)

lemma wf_daily_returns: "wf_frame t \<Longrightarrow> wf_frame (daily_returns pad t)"
proof -
  assume wf: "wf_frame t"
  let ?n = "length (columns t)"
  let ?data = "if pad then ffill (rows t) else rows t"
  have "list_all (\<lambda>r. length (snd r) = ?n) (rows t)"
    using wf by (simp add: wf_frame_def)
  then have "list_all (\<lambda>r. length (snd r) = ?n) ?data"
    by (simp add: ffill_wf)
  then have "list_all (\<lambda>r. length (snd r) = ?n)
           (map2 (\<lambda>cur prev. (fst cur, pct_row (snd cur) (snd prev))) ?data
              (zip (map fst ?data) (replicate ?n NaN # map snd ?data)))"
    by (rule pct_rows_wf) simp
  then have "list_all (\<lambda>r. length (snd r) = ?n)
           (filter (\<lambda>r. \<not> list_ex isna (snd r))
             (map2 (\<lambda>cur prev. (fst cur, pct_row (snd cur) (snd prev))) ?data
                (zip (map fst ?data) (replicate ?n NaN # map snd ?data))))"
    by (rule list_all_filter)
  moreover have "rows (daily_returns pad t)
      = filter (\<lambda>r. \<not> list_ex isna (snd r))
             (map2 (\<lambda>cur prev. (fst cur, pct_row (snd cur) (snd prev))) ?data
                (zip (map fst ?data) (replicate ?n NaN # map snd ?data)))"
    by (simp add: daily_returns_def dropna_def pct_change_def shift1_def Let_def)
  ultimately show ?thesis
    unfolding wf_frame_def columns_daily_returns by simp
qed

lemma daily_returns_no_nan:
  "list_all (\<lambda>r. \<not> list_ex isna (snd r)) (rows (daily_returns pad t))"
  by (simp add: daily_returns_def dropna_def list_all_iff)

lemma daily_returns_one_row:
  assumes "wf_frame sd" and "length (rows sd) = 1" and "columns sd \<noteq> []"
  shows "rows (daily_returns pad sd) = []"
proof -
  from assms(2) obtain r where rs: "rows sd = [r]"
    by (cases "rows sd") auto
  obtain d v where r: "r = (d, v)" by (cases r)
  have "length v = length (columns sd)"
    using assms(1) rs r by (simp add: wf_frame_def)
  then have "v \<noteq> []" and "0 < length (columns sd)" using assms(3) by auto
  then have "list_ex isna (pct_row v (replicate (length (columns sd)) NaN))"
    by (rule pct_row_first)
  then show ?thesis
    by (simp add: daily_returns_def dropna_def pct_change_def shift1_def ffill_def Let_def rs r)
qed

text \<open>
  C9: a price table with a single row is not empty, so the run takes the success branch
  and its risk, correlation and cumulative-return stages end without an error: the
  returns and cumulative-return tables have no rows, and every risk and correlation is
  NaN. With pandas before version 3 the simulation stage ends without an error as well,
  every simulated value being NaN; from pandas 3 on it raises KeyError at \<^verbatim>\<open>p[0]\<close>.
\<close>

theorem single_row_outcome:
  assumes "wf_frame sd" and "length (rows sd) = 1" and "columns sd \<noteq> []"
  shows "\<exists>a. pipeline pad zs sd = Loaded a
    \<and> rows (returns a) = []
    \<and> map snd (risk_df a) = replicate (length (columns sd)) NaN
    \<and> correlation_matrix a = replicate (length (columns sd)) (replicate (length (columns sd)) NaN)
    \<and> rows (cumulative a) = []
    \<and> simulation a = (if pad then Inr (replicate 50 (replicate 252 NaN)) else Inl KeyError)"
proof -
  let ?n = "length (columns sd)"
  let ?daily = "daily_returns pad sd"
  have ne: "\<not> empty sd" using assms(2,3) by (auto simp: empty_def)
  have rs: "rows ?daily = []" using assms by (rule daily_returns_one_row)
  then have col: "col ?daily j = []" for j by (simp add: col_def)
  have sd0: "series_std [] = NaN" by (simp add: series_std_def)
  have std: "std ?daily = replicate ?n NaN"
    by (simp add: std_def col sd0 map_replicate_const)
  have risk: "map snd (zip (columns sd) (annualized_risk (std ?daily))) = replicate ?n NaN"
    by (simp add: std annualized_risk_def)
  have "corr_pair [] [] = NaN" by (simp add: corr_pair_def)
  then have cm: "corr ?daily = replicate ?n (replicate ?n NaN)"
    by (simp add: corr_def col map_replicate_const)
  have cu: "rows (cumulative_returns ?daily) = []"
    by (simp add: cumulative_returns_def cumprod_def add_scalar_def rs)
  have sim: "map (\<lambda>x. path0 zs (series_std (col ?daily 0)) ?n 252
                  (snd (last (rows sd)) ! 0) (x * (252 * ?n))) [0..<50]
      = replicate 50 (replicate 252 NaN)"
    by (simp add: col sd0 path0_NaN map_replicate_const)
  show ?thesis
  proof (cases pad)
    case True
    then show ?thesis
      unfolding pipeline_Loaded [OF assms(1) ne] using rs risk cm cu sim by simp
  next
    case False
    then show ?thesis
      unfolding pipeline_Loaded [OF assms(1) ne] using rs risk cm cu by simp
  qed
qed

theorem single_row_outcome_witness:
  "wf_frame \<lparr>columns = [''AAPL''], rows = [(0, [Fin 100])]\<rparr>
   \<and> (\<exists>a. pipeline False (\<lambda>k. 1) \<lparr>columns = [''AAPL''], rows = [(0, [Fin 100])]\<rparr> = Loaded a
        \<and> rows (returns a) = [] \<and> map snd (risk_df a) = [NaN]
        \<and> correlation_matrix a = [[NaN]] \<and> rows (cumulative a) = []
        \<and> simulation a = Inl KeyError)
   \<and> (\<exists>a. pipeline True (\<lambda>k. 1) \<lparr>columns = [''AAPL''], rows = [(0, [Fin 100])]\<rparr> = Loaded a
        \<and> rows (returns a) = [] \<and> map snd (risk_df a) = [NaN]
        \<and> correlation_matrix a = [[NaN]] \<and> rows (cumulative a) = []
        \<and> simulation a = Inr (replicate 50 (replicate 252 NaN)))"
proof -
  let ?sd = "\<lparr>columns = [''AAPL''], rows = [(0, [Fin 100])]\<rparr>"
  have h: "wf_frame ?sd" "length (rows ?sd) = 1" "columns ?sd \<noteq> []"
    by (simp_all add: wf_frame_def)
  from single_row_outcome [OF h, of False "\<lambda>k. 1"] single_row_outcome [OF h, of True "\<lambda>k. 1"]
  show ?thesis using h(1) by simp
qed

section \<open>Cumulative returns\<close>

lemma length_cumprod_from [simp]: "length (cumprod_from acc rs) = length rs"
  by (induction acc rs rule: cumprod_from.induct) (auto simp: Let_def)

lemma fst_cumprod_from [simp]: "map fst (cumprod_from acc rs) = map fst rs"
  by (induction acc rs rule: cumprod_from.induct) (auto simp: Let_def)

lemma cumprod_step_clean:
  "length acc = length r \<Longrightarrow> \<not> list_ex isna r
     \<Longrightarrow> map2 (\<lambda>a c. if isna c then a else fl_mul a c) acc r = map2 fl_mul acc r"
  by (induction acc r rule: list_induct2) auto

lemma cumprod_out_clean:
  "length acc = length r \<Longrightarrow> \<not> list_ex isna r
     \<Longrightarrow> map2 (\<lambda>a c. if isna c then NaN else a) acc r = acc"
  by (induction acc r rule: list_induct2) auto

lemma cumprod_from_nth:
  "list_all (\<lambda>r. length (snd r) = n \<and> \<not> list_ex isna (snd r)) rs \<Longrightarrow> length acc = n
     \<Longrightarrow> i < length rs \<Longrightarrow> j < n
     \<Longrightarrow> snd (cumprod_from acc rs ! i) ! j
         = foldl fl_mul (acc ! j) (take (Suc i) (map (\<lambda>r. snd r ! j) rs))"
proof (induction rs arbitrary: acc i)
  case Nil
  then show ?case by simp
next
  case (Cons r rs)
  obtain d v where r: "r = (d, v)" by (cases r)
  from Cons.prems r have v: "length acc = length v" "\<not> list_ex isna v" "length v = n"
    by auto
  let ?acc = "map2 fl_mul acc v"
  have step: "cumprod_from acc (r # rs) = (d, ?acc) # cumprod_from ?acc rs"
    using v by (simp add: r Let_def cumprod_step_clean cumprod_out_clean)
  have accj: "?acc ! j = fl_mul (acc ! j) (v ! j)"
    using v Cons.prems(4) by simp
  show ?case
  proof (cases i)
    case 0
    then show ?thesis unfolding step by (simp add: accj r)
  next
    case (Suc u)
    have "snd (cumprod_from ?acc rs ! u) ! j
        = foldl fl_mul (?acc ! j) (take (Suc u) (map (\<lambda>r. snd r ! j) rs))"
      using Cons.prems Suc v by (intro Cons.IH) auto
    then show ?thesis unfolding step using Suc by (simp add: accj r)
  qed
qed

lemma add_one_not_na: "isna (fl_add (Fin 1) c) = isna c"
  by (cases c) auto

lemma cumulative_nth:
  assumes wf: "wf_frame daily"
    and clean: "list_all (\<lambda>r. \<not> list_ex isna (snd r)) (rows daily)"
    and i: "i < length (rows daily)" and j: "j < length (columns daily)"
  shows "col (cumulative_returns daily) j ! i
    = running_product (map (fl_add (Fin 1)) (col daily j)) i"
proof -
  let ?n = "length (columns daily)"
  let ?rs = "map (\<lambda>r. (fst r, map (fl_add (Fin 1)) (snd r))) (rows daily)"
  have all: "list_all (\<lambda>r. length (snd r) = ?n \<and> \<not> list_ex isna (snd r)) ?rs"
    using wf clean by (auto simp: wf_frame_def list_all_iff list_ex_iff add_one_not_na)
  have "snd (cumprod_from (replicate ?n (Fin 1)) ?rs ! i) ! j
      = foldl fl_mul (replicate ?n (Fin 1) ! j) (take (Suc i) (map (\<lambda>r. snd r ! j) ?rs))"
    using all by (rule cumprod_from_nth) (use i j in simp_all)
  then have A: "snd (cumprod_from (replicate ?n (Fin 1)) ?rs ! i) ! j
      = foldl fl_mul (Fin 1) (take (Suc i) (map (\<lambda>r. snd r ! j) ?rs))"
    using j by simp
  have "map (fl_add (Fin 1)) (snd r) ! j = fl_add (Fin 1) (snd r ! j)" if "r \<in> set (rows daily)" for r
    using wf j that by (auto simp: wf_frame_def list_all_iff)
  then have B: "map (\<lambda>r. snd r ! j) ?rs = map (fl_add (Fin 1)) (col daily j)"
    by (simp add: col_def comp_def)
  have C: "col (cumulative_returns daily) j ! i = snd (cumprod_from (replicate ?n (Fin 1)) ?rs ! i) ! j"
    using i by (simp add: cumulative_returns_def cumprod_def add_scalar_def col_def)
  show ?thesis unfolding C A B running_product_def ..
qed

text \<open>
  C7: in every analysis the cumulative return of a ticker on a date is the running
  product of one plus its daily returns up to that date; on the first retained date it
  is one plus that date's return. The dates are those of the returns table.
\<close>

theorem cumulative_running_product:
  assumes "wf_frame sd" and "pipeline pad zs sd = Loaded a"
    and "i < length (rows (returns a))" and "j < length (columns sd)"
  shows "col (cumulative a) j ! i = running_product (map (fl_add (Fin 1)) (col (returns a) j)) i
    \<and> col (cumulative a) j ! 0 = fl_add (Fin 1) (col (returns a) j ! 0)
    \<and> map fst (rows (cumulative a)) = map fst (rows (returns a))"
proof -
  have ne: "\<not> empty sd"
    using assms(2) by (auto simp: pipeline_def)
  let ?daily = "daily_returns pad sd"
  from assms(2) have a: "returns a = ?daily" and c: "cumulative a = cumulative_returns ?daily"
    unfolding pipeline_Loaded [OF assms(1) ne] by auto
  have wf: "wf_frame ?daily" using assms(1) by (rule wf_daily_returns)
  have clean: "list_all (\<lambda>r. \<not> list_ex isna (snd r)) (rows ?daily)"
    by (rule daily_returns_no_nan)
  have i: "i < length (rows ?daily)" and i0: "0 < length (rows ?daily)"
    using assms(3) unfolding a by auto
  have j: "j < length (columns ?daily)" using assms(4) by simp
  have at_i: "col (cumulative_returns ?daily) j ! i
      = running_product (map (fl_add (Fin 1)) (col ?daily j)) i"
    using wf clean i j by (rule cumulative_nth)
  have "col (cumulative_returns ?daily) j ! 0
      = running_product (map (fl_add (Fin 1)) (col ?daily j)) 0"
    using wf clean i0 j by (rule cumulative_nth)
  moreover have "col ?daily j \<noteq> []" using i0 by (simp add: col_def)
  ultimately have at_0: "col (cumulative_returns ?daily) j ! 0 = fl_add (Fin 1) (col ?daily j ! 0)"
    by (cases "col ?daily j") (simp_all add: running_product_def)
  have dates: "map fst (rows (cumulative_returns ?daily)) = map fst (rows ?daily)"
    by (simp add: cumulative_returns_def cumprod_def add_scalar_def comp_def)
  show ?thesis unfolding a c using at_i at_0 dates by simp
qed

theorem cumulative_running_product_witness:
  "wf_frame walk4
   \<and> (\<exists>a. pipeline True (\<lambda>k. 1) walk4 = Loaded a
        \<and> length (rows (returns a)) = 3
        \<and> col (cumulative a) 0 ! 2 = Fin (3 / 4)
        \<and> col (cumulative a) 0 ! 0 = Fin (1 / 2)
        \<and> map fst (rows (cumulative a)) = [1, 2, 3])"
proof -
  obtain a where a: "pipeline True (\<lambda>k. 1) walk4 = Loaded a"
    using pipeline_Loaded [OF wf_walk4] by blast
  have r: "returns a = daily_returns True walk4"
    using a unfolding pipeline_Loaded [OF wf_walk4] by auto
  have rows: "rows (returns a) = [(1, [Fin (- (1 / 2))]), (2, [Fin 0]), (3, [Fin (1 / 2)])]"
    unfolding r by (rule returns_walk4)
  have i: "2 < length (rows (returns a))" and j: "0 < length (columns walk4)"
    by (simp_all add: rows walk4_def)
  from cumulative_running_product [OF wf_walk4(1) a i j]
  show ?thesis using a wf_walk4(1)
    by (auto simp: rows col_def running_product_def eval_nat_numeral)
qed

section \<open>The scenario of the specification\<close>

lemma ticker_list_aapl: "ticker_list ''AAPL'' = [''AAPL'']"
  by (simp add: ticker_list_def strip_def upper_def upper_char_def is_space_def Let_def)

lemma wf_aapl5: "wf_frame aapl5" "\<not> empty aapl5"
  by (simp_all add: aapl5_def wf_frame_def empty_def)

lemma returns_aapl5:
  "rows (daily_returns pad aapl5)
     = [(1, [Fin (1 / 100)]), (2, [Fin (- (2 / 101))]), (3, [Fin (1 / 33)]), (4, [Fin (1 / 102)])]"
  by (cases pad)
    (simp_all add: aapl5_def daily_returns_def dropna_def pct_change_def pct_row_def shift1_def
      ffill_def Let_def fl_sub_def)

lemma columns_aapl5: "length (columns aapl5) = Suc 0"
  by (simp add: aapl5_def)

lemma cumulative_aapl5:
  "rows (cumulative_returns (daily_returns pad aapl5))
     = [(1, [Fin (101 / 100)]), (2, [Fin (99 / 100)]), (3, [Fin (51 / 50)]), (4, [Fin (103 / 100)])]"
  by (simp add: cumulative_returns_def cumprod_def add_scalar_def returns_aapl5 columns_aapl5
      Let_def)

text \<open>
  C8: for the ticker input AAPL and the five prices 100, 101, 99, 102, 103 the daily
  returns are 1/100, -2/101, 1/33 and 1/102, which round to 0.01, -0.0198, 0.0303 and
  0.0098, and the last cumulative return is 103/100.
\<close>

theorem aapl_scenario:
  "ticker_list ''AAPL'' = [''AAPL'']
   \<and> (\<exists>a. analyze fetch_aapl5 pad zs ''AAPL'' start_date end_date = Loaded a
        \<and> col (returns a) 0 = [Fin (1 / 100), Fin (- (2 / 101)), Fin (1 / 33), Fin (1 / 102)]
        \<and> list_all2 approx4 (col (returns a) 0) [1 / 100, - (198 / 10000), 303 / 10000, 98 / 10000]
        \<and> last (col (cumulative a) 0) = Fin (103 / 100))"
proof -
  have run: "analyze fetch_aapl5 pad zs ''AAPL'' start_date end_date = pipeline pad zs aapl5"
    by (simp add: analyze_def get_data_def ticker_list_aapl fetch_aapl5_def)
  obtain a where a: "pipeline pad zs aapl5 = Loaded a"
    using pipeline_Loaded [OF wf_aapl5] by blast
  have r: "returns a = daily_returns pad aapl5"
    and c: "cumulative a = cumulative_returns (daily_returns pad aapl5)"
    using a unfolding pipeline_Loaded [OF wf_aapl5] by auto
  have rs: "col (returns a) 0 = [Fin (1 / 100), Fin (- (2 / 101)), Fin (1 / 33), Fin (1 / 102)]"
    unfolding r by (simp add: col_def returns_aapl5)
  have ap: "list_all2 approx4 (col (returns a) 0) [1 / 100, - (198 / 10000), 303 / 10000, 98 / 10000]"
    unfolding rs by simp
  have cu: "last (col (cumulative a) 0) = Fin (103 / 100)"
    unfolding c by (simp add: col_def cumulative_aapl5)
  show ?thesis using run a rs ap cu ticker_list_aapl by simp
qed

section \<open>Sums of cells\<close>

lemma foldl_fl_add_Fin: "foldl fl_add (Fin a) (map Fin rs) = Fin (a + sum_list rs)"
  by (induction rs arbitrary: a) (auto simp: add.assoc)

lemma fl_sum_Fin: "fl_sum (map Fin rs) = Fin (sum_list rs)"
  by (simp add: fl_sum_def foldl_fl_add_Fin)

lemma foldl_fl_add_NaN: "foldl fl_add NaN xs = NaN"
  by (induction xs) auto

lemma foldl_fl_add_has_NaN: "NaN \<in> set xs \<Longrightarrow> foldl fl_add a xs = NaN"
  by (induction xs arbitrary: a) (auto simp: foldl_fl_add_NaN)

lemma fl_sum_has_NaN: "NaN \<in> set xs \<Longrightarrow> fl_sum xs = NaN"
  by (simp add: fl_sum_def foldl_fl_add_has_NaN)

lemma fl_add_PInf_left: "fl_add PInf x = PInf \<or> fl_add PInf x = NaN"
  by (cases x) auto

lemma fl_add_PInf_right: "fl_add x PInf = PInf \<or> fl_add x PInf = NaN"
  by (cases x) auto

lemma fl_add_NInf_left: "fl_add NInf x = NInf \<or> fl_add NInf x = NaN"
  by (cases x) auto

lemma fl_add_NInf_right: "fl_add x NInf = NInf \<or> fl_add x NInf = NaN"
  by (cases x) auto

lemma foldl_from_PInf: "foldl fl_add PInf xs = PInf \<or> foldl fl_add PInf xs = NaN"
proof (induction xs rule: rev_induct)
  case Nil
  show ?case by simp
next
  case (snoc x xs)
  then show ?case using fl_add_PInf_left [of x] by auto
qed

lemma foldl_from_NInf: "foldl fl_add NInf xs = NInf \<or> foldl fl_add NInf xs = NaN"
proof (induction xs rule: rev_induct)
  case Nil
  show ?case by simp
next
  case (snoc x xs)
  then show ?case using fl_add_NInf_left [of x] by auto
qed

lemma foldl_has_PInf:
  "PInf \<in> set xs \<Longrightarrow> foldl fl_add a xs = PInf \<or> foldl fl_add a xs = NaN"
proof (induction xs arbitrary: a)
  case Nil
  then show ?case by simp
next
  case (Cons x xs)
  show ?case
  proof (cases "x = PInf")
    case True
    then show ?thesis
      using fl_add_PInf_right [of a] foldl_from_PInf [of xs] by (auto simp: foldl_fl_add_NaN)
  next
    case False
    then show ?thesis using Cons by auto
  qed
qed

lemma foldl_has_NInf:
  "NInf \<in> set xs \<Longrightarrow> foldl fl_add a xs = NInf \<or> foldl fl_add a xs = NaN"
proof (induction xs arbitrary: a)
  case Nil
  then show ?case by simp
next
  case (Cons x xs)
  show ?case
  proof (cases "x = NInf")
    case True
    then show ?thesis
      using fl_add_NInf_right [of a] foldl_from_NInf [of xs] by (auto simp: foldl_fl_add_NaN)
  next
    case False
    then show ?thesis using Cons by auto
  qed
qed

text \<open>
  A value that is not a finite number has no deviation from the mean of a series it
  belongs to: the difference is NaN, whichever way it is taken.
\<close>

lemma deviation_not_fin:
  assumes "v \<in> set vs" and "\<not> is_fin v" and "0 < n"
  shows "fl_sub v (fl_div (fl_sum vs) (Fin n)) = NaN"
    and "fl_sub (fl_div (fl_sum vs) (Fin n)) v = NaN"
proof -
  have "fl_sub v (fl_div (fl_sum vs) (Fin n)) = NaN \<and> fl_sub (fl_div (fl_sum vs) (Fin n)) v = NaN"
  proof (cases v)
    case (Fin a)
    then show ?thesis using assms(2) by simp
  next
    case PInf
    then have "fl_sum vs = PInf \<or> fl_sum vs = NaN"
      using assms(1) foldl_has_PInf [of vs "Fin 0"] by (simp add: fl_sum_def)
    then show ?thesis using PInf assms(3) by (auto simp: fl_sub_def)
  next
    case NInf
    then have "fl_sum vs = NInf \<or> fl_sum vs = NaN"
      using assms(1) foldl_has_NInf [of vs "Fin 0"] by (simp add: fl_sum_def)
    then show ?thesis using NInf assms(3) by (auto simp: fl_sub_def)
  next
    case NaN
    then show ?thesis by (simp add: fl_sub_def)
  qed
  then show "fl_sub v (fl_div (fl_sum vs) (Fin n)) = NaN"
    and "fl_sub (fl_div (fl_sum vs) (Fin n)) v = NaN" by simp_all
qed

lemma all_fin_map: "list_all is_fin xs \<Longrightarrow> \<exists>rs. xs = map Fin rs"
proof (induction xs)
  case Nil
  show ?case by simp
next
  case (Cons x xs)
  then obtain rs where "xs = map Fin rs" by auto
  moreover from Cons.prems obtain a where "x = Fin a" by (cases x) auto
  ultimately have "x # xs = map Fin (a # rs)" by simp
  then show ?case by (rule exI)
qed

section \<open>The Cauchy-Schwarz inequality for sums over a list\<close>

lemma sum_list_square_expand:
  fixes f g :: "'a \<Rightarrow> real"
  shows "sum_list (map (\<lambda>p. (f p - t * g p) * (f p - t * g p)) ps)
    = sum_list (map (\<lambda>p. f p * f p) ps) - 2 * t * sum_list (map (\<lambda>p. f p * g p) ps)
        + t * t * sum_list (map (\<lambda>p. g p * g p) ps)"
  by (induction ps) (simp_all add: algebra_simps)

lemma sum_list_squares_nonneg:
  fixes f :: "'a \<Rightarrow> real"
  shows "0 \<le> sum_list (map (\<lambda>p. f p * f p) ps)"
  by (rule sum_list_nonneg) auto

lemma sum_list_squares_zero:
  fixes f g :: "'a \<Rightarrow> real"
  assumes "sum_list (map (\<lambda>p. g p * g p) ps) = 0"
  shows "sum_list (map (\<lambda>p. f p * g p) ps) = 0"
proof -
  have "\<forall>x\<in>set (map (\<lambda>p. g p * g p) ps). x = 0"
    using assms by (subst (asm) sum_list_nonneg_eq_0_iff) auto
  then have "\<forall>p\<in>set ps. g p = 0" by auto
  then show ?thesis by (induction ps) auto
qed

lemma cauchy_schwarz_list:
  fixes f g :: "'a \<Rightarrow> real"
  shows "(sum_list (map (\<lambda>p. f p * g p) ps))\<^sup>2
    \<le> sum_list (map (\<lambda>p. f p * f p) ps) * sum_list (map (\<lambda>p. g p * g p) ps)"
proof -
  let ?A = "sum_list (map (\<lambda>p. f p * f p) ps)"
  let ?B = "sum_list (map (\<lambda>p. g p * g p) ps)"
  let ?C = "sum_list (map (\<lambda>p. f p * g p) ps)"
  show ?thesis
  proof (cases "?B = 0")
    case True
    then have "?C = 0" by (rule sum_list_squares_zero)
    then show ?thesis using True by simp
  next
    case False
    have B: "0 < ?B" using False sum_list_squares_nonneg [of g ps] by simp
    let ?t = "?C / ?B"
    have "0 \<le> sum_list (map (\<lambda>p. (f p - ?t * g p) * (f p - ?t * g p)) ps)"
      by (rule sum_list_squares_nonneg)
    also have "\<dots> = ?A - 2 * ?t * ?C + ?t * ?t * ?B"
      by (rule sum_list_square_expand)
    also have "\<dots> = ?A - ?C\<^sup>2 / ?B"
      using False by (simp add: power2_eq_square field_simps)
    finally have "?C\<^sup>2 / ?B \<le> ?A" by simp
    then show ?thesis using B by (simp add: pos_divide_le_eq)
  qed
qed

section \<open>The Pearson coefficient\<close>

lemma map2_same: "map2 h (map f ps) (map g ps) = map (\<lambda>p. h (f p) (g p)) ps"
  by (induction ps) auto

lemma corr_pair_pearson:
  "corr_pair xs ys =
     (let ps = filter (\<lambda>p. is_fin (fst p) \<and> is_fin (snd p)) (zip xs ys)
      in if ps = [] then NaN else pearson ps)"
  by (simp add: corr_pair_def pearson_def Let_def map2_same comp_def)

text \<open>On finite observations the coefficient is the textbook quotient of real numbers.\<close>

lemma pearson_fin:
  fixes qs :: "(real \<times> real) list"
  defines "mx \<equiv> sum_list (map fst qs) / real (length qs)"
    and "my \<equiv> sum_list (map snd qs) / real (length qs)"
  defines "C \<equiv> sum_list (map (\<lambda>q. (fst q - mx) * (snd q - my)) qs)"
    and "SX \<equiv> sum_list (map (\<lambda>q. (fst q - mx) * (fst q - mx)) qs)"
    and "SY \<equiv> sum_list (map (\<lambda>q. (snd q - my) * (snd q - my)) qs)"
  assumes "qs \<noteq> []"
  shows "pearson (map (\<lambda>q. (Fin (fst q), Fin (snd q))) qs)
    = (if sqrt (SX * SY) = 0 then NaN else Fin (C / sqrt (SX * SY)))"
proof -
  let ?ps = "map (\<lambda>q. (Fin (fst q), Fin (snd q))) qs"
  have n: "real (length qs) \<noteq> 0" using assms(6) by simp
  have fx: "map fst ?ps = map Fin (map fst qs)" and fy: "map snd ?ps = map Fin (map snd qs)"
    by (simp_all add: comp_def)
  have mx: "fl_div (fl_sum (map fst ?ps)) (Fin (real (length ?ps))) = Fin mx"
    unfolding fx fl_sum_Fin using n by (simp add: mx_def)
  have my: "fl_div (fl_sum (map snd ?ps)) (Fin (real (length ?ps))) = Fin my"
    unfolding fy fl_sum_Fin using n by (simp add: my_def)
  have c: "map (\<lambda>p. fl_mul (fl_sub (fst p) (Fin mx)) (fl_sub (snd p) (Fin my))) ?ps
      = map Fin (map (\<lambda>q. (fst q - mx) * (snd q - my)) qs)"
    by (simp add: comp_def fl_sub_def)
  have sx: "map (\<lambda>p. fl_mul (fl_sub (fst p) (Fin mx)) (fl_sub (fst p) (Fin mx))) ?ps
      = map Fin (map (\<lambda>q. (fst q - mx) * (fst q - mx)) qs)"
    by (simp add: comp_def fl_sub_def)
  have sy: "map (\<lambda>p. fl_mul (fl_sub (snd p) (Fin my)) (fl_sub (snd p) (Fin my))) ?ps
      = map Fin (map (\<lambda>q. (snd q - my) * (snd q - my)) qs)"
    by (simp add: comp_def fl_sub_def)
  have "0 \<le> SX" "0 \<le> SY"
    unfolding SX_def SY_def by (rule sum_list_squares_nonneg)+
  then have nonneg: "0 \<le> SX * SY" by simp
  show ?thesis
    unfolding pearson_def Let_def mx my c sx sy fl_sum_Fin
    using nonneg by (simp add: C_def SX_def SY_def)
qed

lemma all_fin_pairs:
  "list_all (\<lambda>p. is_fin (fst p) \<and> is_fin (snd p)) ps
     \<Longrightarrow> \<exists>qs. ps = map (\<lambda>q. (Fin (fst q), Fin (snd q))) qs"
proof (induction ps)
  case Nil
  show ?case by simp
next
  case (Cons p ps)
  then obtain qs where "ps = map (\<lambda>q. (Fin (fst q), Fin (snd q))) qs" by auto
  moreover from Cons.prems obtain a b where "p = (Fin a, Fin b)"
    by (cases p; cases "fst p"; cases "snd p") auto
  ultimately have "p # ps = map (\<lambda>q. (Fin (fst q), Fin (snd q))) ((a, b) # qs)" by simp
  then show ?case by (rule exI)
qed

lemma unit_quotient:
  fixes c :: real
  assumes "c\<^sup>2 \<le> s" and "sqrt s \<noteq> 0"
  shows "- 1 \<le> c / sqrt s \<and> c / sqrt s \<le> 1"
proof -
  have s: "0 \<le> s" using assms(1) by (meson order_trans zero_le_power2)
  then have d: "0 < sqrt s" using assms(2) by (simp add: less_le)
  have "\<bar>c\<bar>\<^sup>2 \<le> s" using assms(1) by simp
  then have "\<bar>c\<bar> \<le> sqrt s" by (rule real_le_rsqrt)
  then have "- sqrt s \<le> c" and "c \<le> sqrt s" by linarith+
  then show ?thesis using d by (simp add: pos_divide_le_eq pos_le_divide_eq)
qed

lemma pearson_range:
  assumes "list_all (\<lambda>p. is_fin (fst p) \<and> is_fin (snd p)) ps" and ne: "ps \<noteq> []"
  shows "pearson ps = NaN \<or> in_unit_range (pearson ps)"
proof -
  from assms(1) obtain qs where ps: "ps = map (\<lambda>q. (Fin (fst q), Fin (snd q))) qs"
    using all_fin_pairs by blast
  with ne have qs: "qs \<noteq> []" by auto
  define mx where "mx = sum_list (map fst qs) / real (length qs)"
  define my where "my = sum_list (map snd qs) / real (length qs)"
  define C where "C = sum_list (map (\<lambda>q. (fst q - mx) * (snd q - my)) qs)"
  define SX where "SX = sum_list (map (\<lambda>q. (fst q - mx) * (fst q - mx)) qs)"
  define SY where "SY = sum_list (map (\<lambda>q. (snd q - my) * (snd q - my)) qs)"
  have val: "pearson ps = (if sqrt (SX * SY) = 0 then NaN else Fin (C / sqrt (SX * SY)))"
    unfolding ps C_def SX_def SY_def mx_def my_def using qs by (rule pearson_fin)
  have cs: "C\<^sup>2 \<le> SX * SY"
    unfolding C_def SX_def SY_def by (rule cauchy_schwarz_list)
  show ?thesis
  proof (cases "sqrt (SX * SY) = 0")
    case True
    then show ?thesis using val by simp
  next
    case False
    then show ?thesis using val unit_quotient [OF cs False] by simp
  qed
qed

lemma pearson_swap: "pearson (map prod.swap ps) = pearson ps"
proof -
  let ?n = "Fin (real (length ps))"
  let ?mx = "fl_div (fl_sum (map fst ps)) ?n"
  let ?my = "fl_div (fl_sum (map snd ps)) ?n"
  have cov: "map (\<lambda>p. fl_mul (fl_sub (snd p) ?my) (fl_sub (fst p) ?mx)) ps
      = map (\<lambda>p. fl_mul (fl_sub (fst p) ?mx) (fl_sub (snd p) ?my)) ps"
    by (simp add: fl_mul_commute)
  have div: "fl_mul (fl_sum (map (\<lambda>p. fl_mul (fl_sub (snd p) ?my) (fl_sub (snd p) ?my)) ps))
        (fl_sum (map (\<lambda>p. fl_mul (fl_sub (fst p) ?mx) (fl_sub (fst p) ?mx)) ps))
      = fl_mul (fl_sum (map (\<lambda>p. fl_mul (fl_sub (fst p) ?mx) (fl_sub (fst p) ?mx)) ps))
        (fl_sum (map (\<lambda>p. fl_mul (fl_sub (snd p) ?my) (fl_sub (snd p) ?my)) ps))"
    by (rule fl_mul_commute)
  show ?thesis
    unfolding pearson_def Let_def length_map map_map comp_def fst_swap snd_swap cov div ..
qed

lemma corr_pair_sym: "corr_pair xs ys = corr_pair ys xs"
proof -
  let ?P = "\<lambda>p :: flt \<times> flt. is_fin (fst p) \<and> is_fin (snd p)"
  have z: "zip ys xs = map prod.swap (zip xs ys)"
    by (subst zip_commute) (simp add: prod.swap_def case_prod_beta)
  have "?P \<circ> prod.swap = ?P" by (auto simp: fun_eq_iff)
  then have f: "filter ?P (zip ys xs) = map prod.swap (filter ?P (zip xs ys))"
    unfolding z filter_map by simp
  show ?thesis
    unfolding corr_pair_pearson [of ys xs] corr_pair_pearson [of xs ys] f Let_def
    by (simp add: pearson_swap)
qed

lemma corr_pair_range: "corr_pair xs ys = NaN \<or> in_unit_range (corr_pair xs ys)"
proof -
  let ?ps = "filter (\<lambda>p. is_fin (fst p) \<and> is_fin (snd p)) (zip xs ys)"
  have fin: "list_all (\<lambda>p. is_fin (fst p) \<and> is_fin (snd p)) ?ps"
    by (simp add: list_all_iff)
  show ?thesis
  proof (cases "?ps = []")
    case True
    then show ?thesis by (simp add: corr_pair_pearson)
  next
    case False
    with fin have "pearson ?ps = NaN \<or> in_unit_range (pearson ?ps)"
      by (rule pearson_range)
    then show ?thesis using False by (simp add: corr_pair_pearson Let_def)
  qed
qed

text \<open>
  Infinite returns are left out like missing ones: on the returns -1, inf, 1 (prices 4,
  0, 0, 3, 6, whose 0/0 row is dropped) a column correlates with itself to 1.
\<close>

lemma corr_pair_leaves_out_inf:
  "corr_pair [Fin (- 1), PInf, Fin 1] [Fin (- 1), PInf, Fin 1] = Fin 1"
  by (simp add: corr_pair_def fl_sum_def fl_sub_def Let_def)

section \<open>Standard deviation and correlation of finite series\<close>

lemma filter_not_na_Fin [simp]: "filter (\<lambda>v. \<not> isna v) (map Fin rs) = map Fin rs"
  by (induction rs) auto

lemma series_std_Fin_list:
  assumes "2 \<le> length rs"
  shows "series_std (map Fin rs)
    = Fin (sqrt (sum_list (map (\<lambda>r. (sum_list rs / real (length rs) - r)
                                      * (sum_list rs / real (length rs) - r)) rs)
                 / real (length rs - 1)))"
proof -
  let ?m = "sum_list rs / real (length rs)"
  let ?S = "sum_list (map (\<lambda>r. (?m - r) * (?m - r)) rs)"
  let ?avg = "fl_div (fl_sum (map Fin rs)) (Fin (real (length rs)))"
  define k where "k = real (length rs - 1)"
  have n: "real (length rs) \<noteq> 0" and k: "0 < k"
    using assms by (auto simp: k_def)
  have avg: "?avg = Fin ?m"
    unfolding fl_sum_Fin using n by simp
  have sqr: "map (\<lambda>v. fl_mul (fl_sub (Fin ?m) v) (fl_sub (Fin ?m) v)) (map Fin rs)
      = map Fin (map (\<lambda>r. (?m - r) * (?m - r)) rs)"
    by (simp add: comp_def fl_sub_def)
  have "0 \<le> ?S" by (rule sum_list_squares_nonneg)
  then have nonneg: "0 \<le> ?S / k" using k by simp
  have "\<not> length (map Fin rs) \<le> 1" using assms by simp
  then have "series_std (map Fin rs)
      = fl_sqrt (fl_div (fl_sum (map (\<lambda>v. fl_mul (fl_sub ?avg v) (fl_sub ?avg v)) (map Fin rs)))
          (Fin k))"
    unfolding series_std_def Let_def filter_not_na_Fin k_def length_map by (rule if_not_P)
  also have "\<dots> = fl_sqrt (fl_div (Fin ?S) (Fin k))"
    by (simp only: avg) (simp only: sqr fl_sum_Fin)
  also have "\<dots> = Fin (sqrt (?S / k))"
    using nonneg k by simp
  finally show ?thesis unfolding k_def .
qed

lemma series_std_fin:
  assumes "series_std xs = Fin \<sigma>"
  shows "\<exists>rs. filter (\<lambda>v. \<not> isna v) xs = map Fin rs \<and> 2 \<le> length rs"
proof -
  let ?vs = "filter (\<lambda>v. \<not> isna v) xs"
  let ?n = "real (length ?vs)"
  have count: "\<not> length ?vs \<le> 1"
    using assms by (auto simp: series_std_def Let_def)
  have "list_all is_fin ?vs"
  proof (rule ccontr)
    assume "\<not> list_all is_fin ?vs"
    then obtain v where v: "v \<in> set ?vs" "\<not> is_fin v" by (auto simp: list_all_iff)
    have "0 < length ?vs" using count by linarith
    then have "0 < ?n" by (simp only: of_nat_0_less_iff)
    with v have e: "fl_sub (fl_div (fl_sum ?vs) (Fin ?n)) v = NaN"
      by (rule deviation_not_fin(2))
    let ?sq = "\<lambda>v. fl_mul (fl_sub (fl_div (fl_sum ?vs) (Fin ?n)) v) (fl_sub (fl_div (fl_sum ?vs) (Fin ?n)) v)"
    have "?sq v = NaN" unfolding e by simp
    then have "NaN \<in> set (map ?sq ?vs)"
      using v(1) by (metis (no_types, lifting) image_eqI set_map)
    then have "fl_sum (map ?sq ?vs) = NaN" by (rule fl_sum_has_NaN)
    then have "series_std xs = NaN"
      using count by (simp add: series_std_def Let_def)
    with assms show False by simp
  qed
  then obtain rs where "?vs = map Fin rs" using all_fin_map by blast
  moreover from this count have "2 \<le> length rs" by (metis length_map not_less_eq_eq numeral_2_eq_2 One_nat_def)
  ultimately show ?thesis by blast
qed

text \<open>A series with a nonzero standard deviation has a positive sum of squared deviations.\<close>

lemma nonzero_std_fin:
  assumes "list_all (\<lambda>v. \<not> isna v) xs" and "series_std xs = Fin \<sigma>" and "\<sigma> \<noteq> 0"
  shows "\<exists>rs. xs = map Fin rs \<and> rs \<noteq> []
    \<and> 0 < sum_list (map (\<lambda>r. (r - sum_list rs / real (length rs))
                                * (r - sum_list rs / real (length rs))) rs)"
proof -
  have id: "filter (\<lambda>v. \<not> isna v) xs = xs"
    using assms(1) by (simp add: list_all_iff)
  from series_std_fin [OF assms(2)] obtain rs where rs: "xs = map Fin rs" "2 \<le> length rs"
    unfolding id by blast
  let ?m = "sum_list rs / real (length rs)"
  let ?S = "sum_list (map (\<lambda>r. (?m - r) * (?m - r)) rs)"
  have flip: "map (\<lambda>r. (r - ?m) * (r - ?m)) rs = map (\<lambda>r. (?m - r) * (?m - r)) rs"
    by (simp add: algebra_simps)
  have "\<sigma> = sqrt (?S / real (length rs - 1))"
    using assms(2) unfolding rs(1) series_std_Fin_list [OF rs(2)] by simp
  with assms(3) have "?S \<noteq> 0" by auto
  moreover have "0 \<le> ?S" by (rule sum_list_squares_nonneg)
  ultimately have "0 < ?S" by simp
  then have pos: "0 < sum_list (map (\<lambda>r. (r - ?m) * (r - ?m)) rs)"
    by (simp only: flip)
  have "rs \<noteq> []" using rs(2) by auto
  with rs(1) pos show ?thesis by (intro exI conjI)
qed

lemma map_fst_over_zip:
  "length as = length bs \<Longrightarrow> map (\<lambda>q. F (fst q)) (zip as bs) = map F as"
  by (induction as bs rule: list_induct2) auto

lemma map_snd_over_zip:
  "length as = length bs \<Longrightarrow> map (\<lambda>q. F (snd q)) (zip as bs) = map F bs"
  by (induction as bs rule: list_induct2) auto

lemma corr_pair_Fin_lists:
  fixes as bs :: "real list"
  defines "mx \<equiv> sum_list as / real (length as)"
    and "my \<equiv> sum_list bs / real (length bs)"
  defines "C \<equiv> sum_list (map (\<lambda>q. (fst q - mx) * (snd q - my)) (zip as bs))"
    and "SX \<equiv> sum_list (map (\<lambda>a. (a - mx) * (a - mx)) as)"
    and "SY \<equiv> sum_list (map (\<lambda>b. (b - my) * (b - my)) bs)"
  assumes len: "length as = length bs" and ne: "as \<noteq> []"
  shows "corr_pair (map Fin as) (map Fin bs)
      = (if sqrt (SX * SY) = 0 then NaN else Fin (C / sqrt (SX * SY)))"
    and "C\<^sup>2 \<le> SX * SY"
proof -
  let ?qs = "zip as bs"
  have fst_qs: "map fst ?qs = as" and snd_qs: "map snd ?qs = bs"
    using len by simp_all
  have lq: "length ?qs = length as" "length ?qs = length bs" using len by simp_all
  have qs: "?qs \<noteq> []" using len ne by (cases as; cases bs) auto
  have z: "zip (map Fin as) (map Fin bs) = map (\<lambda>q. (Fin (fst q), Fin (snd q))) ?qs"
    by (simp add: zip_map_map case_prod_beta)
  have keep: "filter (\<lambda>p. is_fin (fst p) \<and> is_fin (snd p)) (map (\<lambda>q. (Fin (fst q), Fin (snd q))) ?qs)
      = map (\<lambda>q. (Fin (fst q), Fin (snd q))) ?qs"
    by (simp add: filter_map comp_def)
  have sx: "sum_list (map (\<lambda>q. (fst q - mx) * (fst q - mx)) ?qs) = SX"
    unfolding SX_def using map_fst_over_zip [OF len, of "\<lambda>a. (a - mx) * (a - mx)"] by simp
  have sy: "sum_list (map (\<lambda>q. (snd q - my) * (snd q - my)) ?qs) = SY"
    unfolding SY_def using map_snd_over_zip [OF len, of "\<lambda>b. (b - my) * (b - my)"] by simp
  have mx': "sum_list (map fst ?qs) / real (length ?qs) = mx"
    unfolding fst_qs lq(1) mx_def ..
  have my': "sum_list (map snd ?qs) / real (length ?qs) = my"
    unfolding snd_qs lq(2) my_def ..
  have "pearson (map (\<lambda>q. (Fin (fst q), Fin (snd q))) ?qs)
      = (if sqrt (SX * SY) = 0 then NaN else Fin (C / sqrt (SX * SY)))"
    using pearson_fin [OF qs] unfolding mx' my' sx sy C_def .
  then show "corr_pair (map Fin as) (map Fin bs)
      = (if sqrt (SX * SY) = 0 then NaN else Fin (C / sqrt (SX * SY)))"
    unfolding corr_pair_pearson z keep Let_def using qs by simp
  show "C\<^sup>2 \<le> SX * SY"
    unfolding C_def sx [symmetric] sy [symmetric] by (rule cauchy_schwarz_list)
qed

section \<open>The correlation matrix\<close>

lemma corr_pair_nonzero_std:
  assumes "list_all (\<lambda>v. \<not> isna v) xs" and "list_all (\<lambda>v. \<not> isna v) ys"
    and "length xs = length ys"
    and "series_std xs = Fin \<sigma>x" and "\<sigma>x \<noteq> 0"
    and "series_std ys = Fin \<sigma>y" and "\<sigma>y \<noteq> 0"
  shows "in_unit_range (corr_pair xs ys)"
proof -
  from nonzero_std_fin [OF assms(1,4,5)] obtain as where as: "xs = map Fin as" "as \<noteq> []"
    and sx: "0 < sum_list (map (\<lambda>r. (r - sum_list as / real (length as))
                                * (r - sum_list as / real (length as))) as)"
    by blast
  from nonzero_std_fin [OF assms(2,6,7)] obtain bs where bs: "ys = map Fin bs"
    and sy: "0 < sum_list (map (\<lambda>r. (r - sum_list bs / real (length bs))
                                * (r - sum_list bs / real (length bs))) bs)"
    by blast
  have len: "length as = length bs" using assms(3) as(1) bs by simp
  define C where "C = sum_list (map (\<lambda>q. (fst q - sum_list as / real (length as))
      * (snd q - sum_list bs / real (length bs))) (zip as bs))"
  define S where "S = sum_list (map (\<lambda>r. (r - sum_list as / real (length as))
                                * (r - sum_list as / real (length as))) as)
      * sum_list (map (\<lambda>r. (r - sum_list bs / real (length bs))
                                * (r - sum_list bs / real (length bs))) bs)"
  have val: "corr_pair xs ys = (if sqrt S = 0 then NaN else Fin (C / sqrt S))"
    unfolding as(1) bs C_def S_def by (rule corr_pair_Fin_lists(1) [OF len as(2)])
  have cs: "C\<^sup>2 \<le> S"
    unfolding C_def S_def by (rule corr_pair_Fin_lists(2) [OF len as(2)])
  have "0 < S" unfolding S_def using sx sy by (rule mult_pos_pos)
  then have nz: "sqrt S \<noteq> 0" by simp
  show ?thesis unfolding val using nz unit_quotient [OF cs nz] by simp
qed

lemma corr_pair_diag:
  assumes "list_all (\<lambda>v. \<not> isna v) xs" and "series_std xs = Fin \<sigma>" and "\<sigma> \<noteq> 0"
  shows "corr_pair xs xs = Fin 1"
proof -
  from nonzero_std_fin [OF assms] obtain as where as: "xs = map Fin as" "as \<noteq> []"
    and sx: "0 < sum_list (map (\<lambda>r. (r - sum_list as / real (length as))
                                * (r - sum_list as / real (length as))) as)"
    by blast
  define S where "S = sum_list (map (\<lambda>r. (r - sum_list as / real (length as))
                                * (r - sum_list as / real (length as))) as)"
  have C: "sum_list (map (\<lambda>q. (fst q - sum_list as / real (length as))
      * (snd q - sum_list as / real (length as))) (zip as as)) = S"
    unfolding S_def by (simp add: zip_same_conv_map comp_def)
  have "corr_pair xs xs = (if sqrt (S * S) = 0 then NaN else Fin (S / sqrt (S * S)))"
    using corr_pair_Fin_lists(1) [OF refl as(2)] unfolding as(1) C S_def [symmetric] .
  moreover have "0 < S" using sx by (simp add: S_def)
  ultimately show ?thesis by simp
qed

lemma length_col [simp]: "length (col t j) = length (rows t)"
  by (simp add: col_def)

lemma col_clean:
  assumes "wf_frame t" and "list_all (\<lambda>r. \<not> list_ex isna (snd r)) (rows t)"
    and "j < length (columns t)"
  shows "list_all (\<lambda>v. \<not> isna v) (col t j)"
proof -
  have "\<not> isna (snd r ! j)" if "r \<in> set (rows t)" for r
  proof -
    have "length (snd r) = length (columns t)" and "\<not> list_ex isna (snd r)"
      using assms(1,2) that by (auto simp: wf_frame_def list_all_iff)
    then show ?thesis using assms(3) by (auto simp: list_ex_iff)
  qed
  then show ?thesis by (simp add: col_def list_all_iff)
qed

lemma nth_corr:
  "i < length (columns t) \<Longrightarrow> j < length (columns t)
     \<Longrightarrow> corr t ! i ! j = corr_pair (col t i) (col t j)"
  by (simp add: corr_def)

text \<open>
  C6 (as amended): the correlation matrix is symmetric; every entry is NaN or lies in
  [-1, 1]; it lies in [-1, 1] whenever both tickers have a nonzero standard deviation of
  daily returns; and the diagonal entry of such a ticker is 1.
\<close>

theorem correlation_matrix_properties:
  assumes "wf_frame sd" and "pipeline pad zs sd = Loaded a"
    and "i < length (columns sd)" and "j < length (columns sd)"
  shows "correlation_matrix a ! i ! j = correlation_matrix a ! j ! i
    \<and> (correlation_matrix a ! i ! j = NaN \<or> in_unit_range (correlation_matrix a ! i ! j))
    \<and> (\<forall>si sj. series_std (col (returns a) i) = Fin si \<and> si \<noteq> 0
          \<and> series_std (col (returns a) j) = Fin sj \<and> sj \<noteq> 0
        \<longrightarrow> in_unit_range (correlation_matrix a ! i ! j))
    \<and> (\<forall>s. series_std (col (returns a) i) = Fin s \<and> s \<noteq> 0
        \<longrightarrow> correlation_matrix a ! i ! i = Fin 1)"
proof -
  have ne: "\<not> empty sd"
    using assms(2) by (auto simp: pipeline_def)
  let ?daily = "daily_returns pad sd"
  from assms(2) have a: "returns a = ?daily" and c: "correlation_matrix a = corr ?daily"
    unfolding pipeline_Loaded [OF assms(1) ne] by auto
  have i: "i < length (columns ?daily)" and j: "j < length (columns ?daily)"
    using assms(3,4) by simp_all
  have wf: "wf_frame ?daily" using assms(1) by (rule wf_daily_returns)
  have clean: "list_all (\<lambda>r. \<not> list_ex isna (snd r)) (rows ?daily)"
    by (rule daily_returns_no_nan)
  have ci: "list_all (\<lambda>v. \<not> isna v) (col ?daily i)" using wf clean i by (rule col_clean)
  have cj: "list_all (\<lambda>v. \<not> isna v) (col ?daily j)" using wf clean j by (rule col_clean)
  have ij: "corr ?daily ! i ! j = corr_pair (col ?daily i) (col ?daily j)"
    using i j by (rule nth_corr)
  have ji: "corr ?daily ! j ! i = corr_pair (col ?daily j) (col ?daily i)"
    using j i by (rule nth_corr)
  have ii: "corr ?daily ! i ! i = corr_pair (col ?daily i) (col ?daily i)"
    using i i by (rule nth_corr)
  have sym: "corr ?daily ! i ! j = corr ?daily ! j ! i"
    unfolding ij ji by (rule corr_pair_sym)
  have range: "corr ?daily ! i ! j = NaN \<or> in_unit_range (corr ?daily ! i ! j)"
    unfolding ij by (rule corr_pair_range)
  have both: "in_unit_range (corr ?daily ! i ! j)"
    if "series_std (col ?daily i) = Fin si" "si \<noteq> 0"
      "series_std (col ?daily j) = Fin sj" "sj \<noteq> 0" for si sj
    unfolding ij using ci cj _ that by (rule corr_pair_nonzero_std) simp
  have diag: "corr ?daily ! i ! i = Fin 1"
    if "series_std (col ?daily i) = Fin s" "s \<noteq> 0" for s
    unfolding ii using ci that by (rule corr_pair_diag)
  show ?thesis unfolding a c using sym range both diag by blast
qed

lemma corr_pair4: "corr_pair (col (daily_returns pad pair4) 0) (col (daily_returns pad pair4) 1) = Fin (- 1)"
  unfolding col_pair4 using sqrt_quarter
  by (simp add: corr_pair_def fl_sum_def fl_sub_def Let_def)

theorem correlation_matrix_properties_witness:
  "wf_frame pair4
   \<and> (\<exists>a. pipeline True (\<lambda>k. 1) pair4 = Loaded a
        \<and> series_std (col (returns a) 0) = Fin (1 / 2)
        \<and> series_std (col (returns a) 1) = Fin (1 / 2)
        \<and> correlation_matrix a ! 0 ! 1 = Fin (- 1)
        \<and> correlation_matrix a ! 1 ! 0 = Fin (- 1)
        \<and> in_unit_range (correlation_matrix a ! 0 ! 1)
        \<and> correlation_matrix a ! 0 ! 0 = Fin 1)"
proof -
  obtain a where a: "pipeline True (\<lambda>k. 1) pair4 = Loaded a"
    using pipeline_Loaded [OF wf_pair4] by blast
  have r: "returns a = daily_returns True pair4"
    and c: "correlation_matrix a = corr (daily_returns True pair4)"
    using a unfolding pipeline_Loaded [OF wf_pair4] by auto
  have v0: "series_std (col (returns a) 0) = Fin (1 / 2)"
    and v1: "series_std (col (returns a) 1) = Fin (1 / 2)"
    unfolding r by (rule std_pair4)+
  have i: "0 < length (columns pair4)" and j: "1 < length (columns pair4)"
    by (simp_all add: pair4_def)
  have nz: "(1 / 2 :: real) \<noteq> 0" by simp
  have "corr (daily_returns True pair4) ! 0 ! 1
      = corr_pair (col (daily_returns True pair4) 0) (col (daily_returns True pair4) 1)"
    by (rule nth_corr) (simp_all add: pair4_def)
  then have m: "correlation_matrix a ! 0 ! 1 = Fin (- 1)"
    unfolding c corr_pair4 .
  from correlation_matrix_properties [OF wf_pair4(1) a i j] v0 v1 nz
  have "correlation_matrix a ! 0 ! 1 = correlation_matrix a ! 1 ! 0"
    and "in_unit_range (correlation_matrix a ! 0 ! 1)"
    and "correlation_matrix a ! 0 ! 0 = Fin 1"
    by blast+
  then show ?thesis using a v0 v1 m wf_pair4(1) by auto
qed

lemma wf_flat_pair: "wf_frame flat_pair" "\<not> empty flat_pair"
  by (simp_all add: flat_pair_def wf_frame_def empty_def)

lemma returns_flat_pair:
  "rows (daily_returns pad flat_pair)
     = [(1, [Fin (- (1 / 2)), Fin 0]), (2, [Fin 0, Fin 0]), (3, [Fin (1 / 2), Fin 0])]"
  by (cases pad)
    (simp_all add: flat_pair_def daily_returns_def dropna_def pct_change_def pct_row_def shift1_def
      ffill_def Let_def fl_sub_def)

text \<open>
  C6 as stated fails: against a ticker whose price does not move, the correlation of a
  ticker with standard deviation 1/2 is NaN, not a number in [-1, 1].
\<close>

theorem correlation_range_counterexample:
  "wf_frame flat_pair \<and> \<not> empty flat_pair
   \<and> (\<exists>a. pipeline True (\<lambda>k. 1) flat_pair = Loaded a
        \<and> series_std (col (returns a) 0) = Fin (1 / 2)
        \<and> series_std (col (returns a) 1) = Fin 0
        \<and> correlation_matrix a ! 0 ! 1 = NaN
        \<and> \<not> in_unit_range (correlation_matrix a ! 0 ! 1))"
proof -
  obtain a where a: "pipeline True (\<lambda>k. 1) flat_pair = Loaded a"
    using pipeline_Loaded [OF wf_flat_pair] by blast
  have r: "returns a = daily_returns True flat_pair"
    and c: "correlation_matrix a = corr (daily_returns True flat_pair)"
    using a unfolding pipeline_Loaded [OF wf_flat_pair] by auto
  have c0: "col (daily_returns True flat_pair) 0 = [Fin (- (1 / 2)), Fin 0, Fin (1 / 2)]"
    and c1: "col (daily_returns True flat_pair) 1 = [Fin 0, Fin 0, Fin 0]"
    by (simp_all add: col_def returns_flat_pair)
  have "sqrt (1 / 4) = 1 / 2"
    by (rule real_sqrt_unique) (simp_all add: power2_eq_square)
  then have s0: "series_std (col (returns a) 0) = Fin (1 / 2)"
    unfolding r c0 by (simp add: series_std_def fl_sum_def fl_sub_def Let_def)
  have s1: "series_std (col (returns a) 1) = Fin 0"
    unfolding r c1 by (simp add: series_std_def fl_sum_def fl_sub_def Let_def)
  have "corr (daily_returns True flat_pair) ! 0 ! 1
      = corr_pair (col (daily_returns True flat_pair) 0) (col (daily_returns True flat_pair) 1)"
    by (rule nth_corr) (simp_all add: flat_pair_def)
  also have "\<dots> = NaN"
    unfolding c0 c1 by (simp add: corr_pair_def fl_sum_def fl_sub_def Let_def)
  finally have m: "correlation_matrix a ! 0 ! 1 = NaN" unfolding c .
  show ?thesis using a s0 s1 m wf_flat_pair by auto
qed

end
